theory Spec2Isabelle
  imports Complex_Main "HOL-Library.AList" "HOL-Library.Sublist"
    "HOL-Library.Product_Lexorder" "HOL-Library.List_Lexorder" "HOL-Library.Char_ord"
begin

section \<open>Python values, exceptions and strings\<close>

text \<open>
  The exceptions that the code of \<^verbatim>\<open>src/app/ip_checker.py\<close> raises itself, and one
  constructor for every other subclass of \<^verbatim>\<open>Exception\<close> that a library call (aiohttp,
  asyncio, json, the Redis client, the score ledger) may raise.  All handlers of the
  file are \<^verbatim>\<open>except Exception\<close>, so the class is never inspected; only \<^verbatim>\<open>str(e)\<close>
  is used, by \<^verbatim>\<open>handle_task_exception\<close>.  What is not an \<^verbatim>\<open>Exception\<close> (the cancellation
  of a task, an interrupt) is not modelled.
\<close>

datatype exn =
    ValidationFailException
  | AssertionError string
  | AttributeError string
  | ValueError string
  | OverflowError string
  | LibraryError string

fun str_exn :: "exn \<Rightarrow> string" where
  "str_exn ValidationFailException = []"
| "str_exn (AssertionError m) = m"
| "str_exn (AttributeError m) = m"
| "str_exn (ValueError m) = m"
| "str_exn (OverflowError m) = m"
| "str_exn (LibraryError m) = m"

text \<open>What \<^verbatim>\<open>await resp.json()\<close> can return: a decoded JSON document.\<close>

datatype json =
    JNull
  | JBool bool
  | JInt int
  | JFloat real
  | JStr string
  | JArr "json list"
  | JObj "(string \<times> json) list"

text \<open>Python truthiness of a decoded JSON value (\<^verbatim>\<open>not x\<close> is its negation).\<close>

fun truthy :: "json \<Rightarrow> bool" where
  "truthy JNull = False"
| "truthy (JBool b) = b"
| "truthy (JInt i) = (i \<noteq> 0)"
| "truthy (JFloat x) = (x \<noteq> 0)"
| "truthy (JStr s) = (s \<noteq> [])"
| "truthy (JArr xs) = (xs \<noteq> [])"
| "truthy (JObj kvs) = (kvs \<noteq> [])"

text \<open>
  \<^verbatim>\<open>result.get(k)\<close>: on a dict the value or \<^verbatim>\<open>None\<close>; any other JSON value has no
  attribute \<^verbatim>\<open>get\<close>.
\<close>

definition dict_get :: "json \<Rightarrow> string \<Rightarrow> exn + json" where
  "dict_get result k =
     (case result of
        JObj kvs \<Rightarrow> Inr (case map_of kvs k of None \<Rightarrow> JNull | Some v \<Rightarrow> v)
      | _ \<Rightarrow> Inl (AttributeError ''get''))"

text \<open>\<^verbatim>\<open>s.find(sub)\<close>: the least index at which \<^verbatim>\<open>sub\<close> starts in \<^verbatim>\<open>s\<close>, or -1.\<close>

fun str_find :: "string \<Rightarrow> string \<Rightarrow> int" where
  "str_find [] sub = (if sub = [] then 0 else - 1)"
| "str_find (c # cs) sub =
     (if prefix sub (c # cs) then 0
      else (let r = str_find cs sub in if r < 0 then - 1 else r + 1))"

text \<open>\<^verbatim>\<open>s.replace(old, new, 1)\<close>: the first occurrence of \<^verbatim>\<open>old\<close> replaced.\<close>

fun str_replace1 :: "string \<Rightarrow> string \<Rightarrow> string \<Rightarrow> string" where
  "str_replace1 old new [] = (if old = [] then new else [])"
| "str_replace1 old new (c # cs) =
     (if prefix old (c # cs) then new @ drop (length old) (c # cs)
      else c # str_replace1 old new cs)"

fun str_join :: "string \<Rightarrow> string list \<Rightarrow> string" where
  "str_join sep [] = []"
| "str_join sep [x] = x"
| "str_join sep (x # y # ys) = x @ sep @ str_join sep (y # ys)"

definition str_bool :: "bool \<Rightarrow> string" where
  "str_bool b = (if b then ''True'' else ''False'')"

section \<open>Python floats\<close>

text \<open>
  A Python \<^verbatim>\<open>float\<close> is an IEEE 754 double.  \<open>round_to_double x\<close> is the double nearest
  to the real \<open>x\<close> when the exponent is not bounded above, ties going to the even
  significand: \<open>x\<close> is divided by the spacing of the doubles around it (a power of two:
  53 significant bits, and not below \<open>2 ^ - 1074\<close>), rounded to the nearest integer, and
  multiplied back.
\<close>

definition round_half_even :: "real \<Rightarrow> int" where
  "round_half_even y =
     (let f = \<lfloor>y\<rfloor>
      in if y - of_int f < 1 / 2 then f
         else if 1 / 2 < y - of_int f then f + 1
         else if even f then f else f + 1)"

definition ulp_exponent :: "real \<Rightarrow> int" where
  "ulp_exponent x = max (\<lfloor>log 2 \<bar>x\<bar>\<rfloor> - 52) (- 1074)"

definition round_to_double :: "real \<Rightarrow> real" where
  "round_to_double x =
     (if x = 0 then 0
      else of_int (round_half_even (x / 2 powr of_int (ulp_exponent x))) *
             2 powr of_int (ulp_exponent x))"

text \<open>
  The finite doubles: the reals \<open>m * 2 ^ e\<close> with a significand below \<open>2 ^ 53\<close> and an
  exponent in the range of the format.  A configured ratio is one of them.
\<close>

typedef double =
  "{x :: real. \<exists>(m :: int) (e :: int). \<bar>m\<bar> < 2 ^ 53 \<and> - 1074 \<le> e \<and> e \<le> 971 \<and>
                 x = of_int m * 2 powr of_int e}"
proof
  show "0 \<in> {x :: real. \<exists>(m :: int) (e :: int). \<bar>m\<bar> < 2 ^ 53 \<and> - 1074 \<le> e \<and> e \<le> 971 \<and>
                 x = of_int m * 2 powr of_int e}"
  proof -
    have "\<bar>0 :: int\<bar> < 2 ^ 53 \<and> - 1074 \<le> (0 :: int) \<and> (0 :: int) \<le> 971 \<and>
          (0 :: real) = of_int 0 * 2 powr of_int 0"
      by simp
    then show ?thesis by blast
  qed
qed

definition float_val :: "double \<Rightarrow> real" where
  "float_val r = Rep_double r"

text \<open>
  The result of an arithmetic operation on finite floats: the rounded value, or an
  infinity when the rounded value leaves the range of the format.
\<close>

datatype pyfloat = Finite real | PosInf | NegInf

definition float_result :: "real \<Rightarrow> pyfloat" where
  "float_result x =
     (let y = round_to_double x
      in if 2 ^ 1024 \<le> y then PosInf else if y \<le> - (2 ^ 1024) then NegInf else Finite y)"

text \<open>
  \<^verbatim>\<open>n * r\<close> for an \<^verbatim>\<open>int\<close> \<open>n\<close> and a \<^verbatim>\<open>float\<close> \<open>r\<close>: the integer is converted to a float
  (rounded; an integer beyond the range raises \<^verbatim>\<open>OverflowError\<close>) and the product is
  rounded.  \<^verbatim>\<open>n >= x\<close> for an \<^verbatim>\<open>int\<close> and a \<^verbatim>\<open>float\<close> compares the exact values.
\<close>

definition float_of_int :: "int \<Rightarrow> exn + real" where
  "float_of_int n =
     (case float_result (real_of_int n) of
        Finite y \<Rightarrow> Inr y
      | PosInf \<Rightarrow> Inl (OverflowError ''int too large to convert to float'')
      | NegInf \<Rightarrow> Inl (OverflowError ''int too large to convert to float''))"

definition int_mul_float :: "int \<Rightarrow> double \<Rightarrow> exn + pyfloat" where
  "int_mul_float n r =
     (case float_of_int n of
        Inl e \<Rightarrow> Inl e
      | Inr x \<Rightarrow> Inr (float_result (x * float_val r)))"

definition int_ge_float :: "int \<Rightarrow> pyfloat \<Rightarrow> bool" where
  "int_ge_float n x =
     (case x of
        Finite y \<Rightarrow> y \<le> real_of_int n
      | PosInf \<Rightarrow> False
      | NegInf \<Rightarrow> True)"

section \<open>The data model\<close>

text \<open>
  Modelled from the spec: \<^verbatim>\<open>IPData\<close> and \<^verbatim>\<open>RuleData\<close> of \<^verbatim>\<open>src/lib/structs.py\<close>, which
  is not among the source files.  The spec's CheckEntry holds an endpoint and the mutable
  outcome fields \<^verbatim>\<open>httpOk\<close>, \<^verbatim>\<open>httpsOk\<close>, \<^verbatim>\<open>ruleResults\<close> and an optional latency.  An
  attribute that holds no outcome (whatever \<^verbatim>\<open>IPData.with_str\<close> leaves there) is
  \<open>None\<close>.  \<^verbatim>\<open>rules\<close> is a Python dict: an association list in insertion order,
  written with \<open>AList.update\<close> (an existing key keeps its place).
\<close>

record IPData =
  endpoint :: string
  http :: "bool option"
  https :: "bool option"
  rules :: "(string \<times> bool) list"
  delay :: "real option"

text \<open>
  Modelled from the spec: \<^verbatim>\<open>IPData.to_str\<close> gives the canonical endpoint string and
  \<^verbatim>\<open>IPData.to_http\<close> the proxy URL built from it.
\<close>

definition to_str :: "IPData \<Rightarrow> string" where
  "to_str ip = endpoint ip"

definition to_http :: "IPData \<Rightarrow> string" where
  "to_http ip = ''http://'' @ endpoint ip"

text \<open>
  The spec's RuleSpec.  \<^verbatim>\<open>contains\<close> is optional: \<open>None\<close> is Python's \<^verbatim>\<open>None\<close>.
\<close>

record RuleData =
  key :: string
  url :: string
  contains :: "string option"
  enable :: bool

text \<open>
  An element of the list \<^verbatim>\<open>Config.RULES\<close>.  \<^verbatim>\<open>rules_check\<close> asserts
  \<^verbatim>\<open>isinstance(rule, RuleData)\<close> for each element, so the list may hold other objects.
\<close>

datatype rule_entry = Rule RuleData | NotRuleData

fun is_RuleData :: "rule_entry \<Rightarrow> bool" where
  "is_RuleData (Rule r) = True"
| "is_RuleData NotRuleData = False"

section \<open>Configuration\<close>

datatype AppEnvType = TEST | PRODUCTION

text \<open>
  \<^verbatim>\<open>Config\<close> of \<^verbatim>\<open>src/app/main.py\<close>, which is not among the source files: the options
  that \<^verbatim>\<open>ip_checker.py\<close> reads, as parameters.  The ratio is a finite float.
\<close>

record Config =
  APP_ENV :: AppEnvType
  RULES :: "rule_entry list"
  DEFAULT_MINI_SCORE :: int
  DEFAULT_MAX_SCORE :: int
  DEFAULT_INC_SCORE :: int
  RE_PUSH_TO_CHECK_POOL_RATE :: double
  DEFAULT_CHECK_INTERVAL :: int

section \<open>The network, as the validation pipeline sees it\<close>

text \<open>
  An aiohttp response: what \<^verbatim>\<open>await resp.json()\<close> and \<^verbatim>\<open>await resp.text()\<close> do, each
  raising or returning.  \<^verbatim>\<open>text()\<close> returns a \<^verbatim>\<open>str\<close>, so the assertion
  \<^verbatim>\<open>isinstance(result, str)\<close> of \<^verbatim>\<open>rules_check\<close> holds whenever \<^verbatim>\<open>text()\<close> returns.
\<close>

record response =
  resp_json :: "exn + json"
  resp_text :: "exn + string"

text \<open>
  The world outside, \<open>'w\<close>, is left abstract.  \<open>session_get url proxy\<close> is the request
  of the block \<^verbatim>\<open>async with session.get(url, proxy=proxy) as resp\<close>: it raises
  (connection error, timeout, a failing \<^verbatim>\<open>to_http\<close>) or yields the response, and moves
  the world on (time passes, other tasks run); the world it returns is the one in
  which the body has been read.  Leaving the block does not raise.  \<open>now\<close> is
  \<^verbatim>\<open>datetime.datetime.now()\<close>, the wall clock in microseconds.
\<close>

record 'w net =
  session_get :: "string \<Rightarrow> string \<Rightarrow> 'w \<Rightarrow> (exn + response) \<times> 'w"
  now :: "'w \<Rightarrow> int"

text \<open>\<^verbatim>\<open>timedelta.total_seconds()\<close> of a difference of two clock readings.\<close>

definition total_seconds :: "int \<Rightarrow> real" where
  "total_seconds us = real_of_int us / 1000000"

section \<open>The validation pipeline\<close>

definition NORMAL_CHECK_URL :: string where
  "NORMAL_CHECK_URL = ''http://httpbin.org/get''"

text \<open>
  The body of the \<^verbatim>\<open>async with\<close> block shared by \<^verbatim>\<open>http_check\<close> (lines 89-92) and
  \<^verbatim>\<open>https_check\<close> (lines 107-110), up to the point where the outcome is stored:
  \<^verbatim>\<open>result = await resp.json(); if not result.get('origin'): raise ValidationFailException()\<close>.
\<close>

definition origin_probe :: "exn + response \<Rightarrow> exn + unit" where
  "origin_probe r =
     (case r of
        Inl e \<Rightarrow> Inl e
      | Inr resp \<Rightarrow>
          (case resp_json resp of
             Inl e \<Rightarrow> Inl e
           | Inr result \<Rightarrow>
               (case dict_get result ''origin'' of
                  Inl e \<Rightarrow> Inl e
                | Inr origin \<Rightarrow>
                    if \<not> truthy origin then Inl ValidationFailException else Inr ())))"

definition http_check :: "'w net \<Rightarrow> IPData \<Rightarrow> 'w \<Rightarrow> IPData \<times> 'w" where
  "http_check nt ip w =
     (let time_spend = now nt w;
          (r, w1) = session_get nt NORMAL_CHECK_URL (to_http ip) w
      in case origin_probe r of
           Inr u \<Rightarrow>
             (ip\<lparr>delay := Some (total_seconds (now nt w1 - time_spend)), http := Some True\<rparr>, w1)
         | Inl e \<Rightarrow> (ip\<lparr>http := Some False\<rparr>, w1))"

definition https_check :: "'w net \<Rightarrow> IPData \<Rightarrow> 'w \<Rightarrow> IPData \<times> 'w" where
  "https_check nt ip w =
     (let (r, w1) = session_get nt (str_replace1 ''http'' ''https'' NORMAL_CHECK_URL) (to_http ip) w
      in case origin_probe r of
           Inr u \<Rightarrow> (ip\<lparr>https := Some True\<rparr>, w1)
         | Inl e \<Rightarrow> (ip\<lparr>https := Some False\<rparr>, w1))"

text \<open>
  The body of the \<^verbatim>\<open>try\<close> of \<^verbatim>\<open>rules_check\<close> (lines 128-132) for one rule, given what
  the request did.  \<^verbatim>\<open>rule.contains and ...\<close> tests the truthiness of \<^verbatim>\<open>contains\<close>:
  \<^verbatim>\<open>None\<close> and the empty string skip the substring test.
\<close>

definition rule_probe :: "RuleData \<Rightarrow> exn + response \<Rightarrow> exn + unit" where
  "rule_probe rule r =
     (case r of
        Inl e \<Rightarrow> Inl e
      | Inr resp \<Rightarrow>
          (case resp_text resp of
             Inl e \<Rightarrow> Inl e
           | Inr result \<Rightarrow>
               (case contains rule of
                  None \<Rightarrow> Inr ()
                | Some sub \<Rightarrow>
                    if sub \<noteq> [] \<and> str_find result sub < 0 then Inl ValidationFailException
                    else Inr ())))"

text \<open>
  The \<^verbatim>\<open>for rule in Config.RULES\<close> loop of \<^verbatim>\<open>rules_check\<close>, with the local dict
  \<^verbatim>\<open>rules\<close> as accumulator.  The assertion stands outside the \<^verbatim>\<open>try\<close>: it raises out
  of the function.
\<close>

fun rules_loop ::
  "'w net \<Rightarrow> IPData \<Rightarrow> rule_entry list \<Rightarrow> (string \<times> bool) list \<Rightarrow> 'w
     \<Rightarrow> (exn + (string \<times> bool) list) \<times> 'w" where
  "rules_loop nt ip [] acc w = (Inr acc, w)"
| "rules_loop nt ip (NotRuleData # rs) acc w = (Inl (AssertionError ''Error rule format''), w)"
| "rules_loop nt ip (Rule rule # rs) acc w =
     (if \<not> enable rule then rules_loop nt ip rs acc w
      else
        (let (r, w1) = session_get nt (url rule) (to_http ip) w
         in case rule_probe rule r of
              Inr u \<Rightarrow> rules_loop nt ip rs (AList.update (key rule) True acc) w1
            | Inl e \<Rightarrow> rules_loop nt ip rs (AList.update (key rule) False acc) w1))"

definition rules_check :: "'w net \<Rightarrow> Config \<Rightarrow> IPData \<Rightarrow> 'w \<Rightarrow> (exn + IPData) \<times> 'w" where
  "rules_check nt cfg ip w =
     (case rules_loop nt ip (RULES cfg) [] w of
        (Inl e, w1) \<Rightarrow> (Inl e, w1)
      | (Inr acc, w1) \<Rightarrow> (Inr (ip\<lparr>rules := acc\<rparr>), w1))"

text \<open>
  The three stages as \<^verbatim>\<open>start_check\<close> runs them inside its client session (lines
  73-75): one pass of the validation pipeline.
\<close>

definition check_stages :: "'w net \<Rightarrow> Config \<Rightarrow> IPData \<Rightarrow> 'w \<Rightarrow> (exn + IPData) \<times> 'w" where
  "check_stages nt cfg ip w =
     (let (ip1, w1) = http_check nt ip w;
          (ip2, w2) = https_check nt ip1 w1
      in rules_check nt cfg ip2 w2)"

section \<open>The shared store and the log\<close>

text \<open>
  What the tasks leave behind besides the store: log lines (a \<^verbatim>\<open>%\<close>-formatted message
  is kept as its format string and arguments) and the sleeps they take.
\<close>

datatype pyarg = AStr string | AInt int | ABool "bool option"

datatype event =
    LogDebug string
  | LogInfo string "pyarg list"
  | LogError string
  | Sleep int

text \<open>
  The state the tasks share.  \<open>check_pool\<close> is the Redis list \<^verbatim>\<open>REDIS_KEY_CHECK_POOL\<close>
  (the spec's PendingQueue), \<open>ip_pool\<close> the sorted set \<^verbatim>\<open>REDIS_KEY_IP_POOL\<close> (the spec's
  VerifiedPool: members with their integer scores; a sorted set holds a member once),
  \<open>last_time\<close> the last-run timestamps by key, \<open>clock\<close> the time in seconds.
  \<open>redis_fault = Some e\<close> is an unavailable store: every access raises \<open>e\<close>.
  \<open>IP_CHECK_TOTAL\<close> is the Prometheus counter.
\<close>

record world =
  check_pool :: "string list"
  ip_pool :: "(string \<times> int) list"
  last_time :: "string \<Rightarrow> int option"
  redis_fault :: "exn option"
  clock :: int
  IP_CHECK_TOTAL :: nat
  events :: "event list"

definition Logger_debug :: "string \<Rightarrow> world \<Rightarrow> world" where
  "Logger_debug msg w = w\<lparr>events := events w @ [LogDebug msg]\<rparr>"

definition Logger_info :: "string \<Rightarrow> pyarg list \<Rightarrow> world \<Rightarrow> world" where
  "Logger_info fmt args w = w\<lparr>events := events w @ [LogInfo fmt args]\<rparr>"

definition Logger_error :: "string \<Rightarrow> world \<Rightarrow> world" where
  "Logger_error msg w = w\<lparr>events := events w @ [LogError msg]\<rparr>"

definition asyncio_sleep :: "int \<Rightarrow> world \<Rightarrow> world" where
  "asyncio_sleep n w = w\<lparr>events := events w @ [Sleep n]\<rparr>"

text \<open>\<^verbatim>\<open>with await Redis.share() as redis\<close>: raises when the store is unavailable.\<close>

definition Redis_share :: "world \<Rightarrow> exn + unit" where
  "Redis_share w = (case redis_fault w of Some e \<Rightarrow> Inl e | None \<Rightarrow> Inr ())"

text \<open>
  The Redis commands the file uses.  \<^verbatim>\<open>ZRANGEBYSCORE key lo hi\<close> returns the members
  with \<open>lo \<le> score \<le> hi\<close> by increasing score, equal scores by member.
\<close>

definition zrangebyscore :: "(string \<times> int) list \<Rightarrow> int \<Rightarrow> int \<Rightarrow> string list" where
  "zrangebyscore pool lo hi =
     map fst (filter (\<lambda>(m, s). lo \<le> s \<and> s \<le> hi) (sort_key (\<lambda>(m, s). (s, m)) pool))"

definition llen :: "string list \<Rightarrow> int" where
  "llen q = int (length q)"

definition zcount :: "(string \<times> int) list \<Rightarrow> int" where
  "zcount pool = int (length pool)"

definition rpush :: "string list \<Rightarrow> world \<Rightarrow> world" where
  "rpush ips w = w\<lparr>check_pool := check_pool w @ ips\<rparr>"

text \<open>
  \<^verbatim>\<open>BLPOP\<close> without a timeout on the check pool: on an empty list it blocks; \<open>None\<close> is
  a call that never returns.
\<close>

definition blpop :: "world \<Rightarrow> ((exn + string) \<times> world) option" where
  "blpop w =
     (case Redis_share w of
        Inl e \<Rightarrow> Some (Inl e, w)
      | Inr u \<Rightarrow>
          (case check_pool w of
             [] \<Rightarrow> None
           | x # xs \<Rightarrow> Some (Inr x, w\<lparr>check_pool := xs\<rparr>)))"

text \<open>
  Modelled from the spec: \<^verbatim>\<open>IPSaver.remove_ip\<close> of \<^verbatim>\<open>src/app/ip_saver.py\<close>, which is not
  among the source files.  The spec's score-ledger contract: \<^verbatim>\<open>remove(list(Endpoint))\<close>
  deletes the entries from VerifiedPool.
\<close>

definition remove_ip :: "string list \<Rightarrow> world \<Rightarrow> (exn + unit) \<times> world" where
  "remove_ip ips w =
     (case Redis_share w of
        Inl e \<Rightarrow> (Inl e, w)
      | Inr u \<Rightarrow> (Inr (), w\<lparr>ip_pool := filter (\<lambda>(m, s). m \<notin> set ips) (ip_pool w)\<rparr>))"

text \<open>
  Modelled from the spec: \<^verbatim>\<open>Redis.last_time_check\<close> and \<^verbatim>\<open>Redis.save_last_time\<close> of
  \<^verbatim>\<open>src/lib/redis_lib.py\<close>, which is not among the source files.  The spec's
  run-deduplication guard: the check answers whether a run was recorded under the key
  within the interval; saving stamps the key with the current time.
\<close>

definition last_time_check :: "string \<Rightarrow> int \<Rightarrow> world \<Rightarrow> exn + bool" where
  "last_time_check k interval w =
     (case Redis_share w of
        Inl e \<Rightarrow> Inl e
      | Inr u \<Rightarrow>
          (case last_time w k of
             None \<Rightarrow> Inr False
           | Some t \<Rightarrow> Inr (clock w - t < interval)))"

definition save_last_time :: "string \<Rightarrow> world \<Rightarrow> (exn + unit) \<times> world" where
  "save_last_time k w =
     (case Redis_share w of
        Inl e \<Rightarrow> (Inl e, w)
      | Inr u \<Rightarrow> (Inr (), w\<lparr>last_time := (last_time w)(k := Some (clock w))\<rparr>))"

text \<open>
  Python's \<^verbatim>\<open>range(start, stop, step)\<close> as the list a \<^verbatim>\<open>for\<close> loop runs through: a zero
  step raises, otherwise element \<open>k\<close> is \<open>start + k * step\<close> and the length is the
  distance to \<open>stop\<close> divided by the step, rounded up.
\<close>

definition py_range :: "int \<Rightarrow> int \<Rightarrow> int \<Rightarrow> exn + int list" where
  "py_range start stop step =
     (if step = 0 then Inl (ValueError ''range() arg 3 must not be zero'')
      else if 0 < step then
        Inr (map (\<lambda>k. start + int k * step) [0..<nat ((stop - start + step - 1) div step)])
      else
        Inr (map (\<lambda>k. start + int k * step) [0..<nat ((start - stop - step - 1) div (- step))]))"

section \<open>The eviction sweeper and the rebalancer\<close>

definition remove_low_score_ip :: "world \<Rightarrow> (exn + unit) \<times> world" where
  "remove_low_score_ip w =
     (case Redis_share w of
        Inl e \<Rightarrow> (Inl e, w)
      | Inr u \<Rightarrow>
          (let ips = zrangebyscore (ip_pool w) (- 100) 0;
               needs_remove = (if 0 < length ips then ips else [])
           in if needs_remove \<noteq> [] then
                (case remove_ip ips w of
                   (Inl e, w1) \<Rightarrow> (Inl e, w1)
                 | (Inr u1, w1) \<Rightarrow>
                     (Inr (), Logger_info ''[check] remove ip %s'' [AStr (str_join '','' ips)] w1))
              else (Inr (), w)))"

text \<open>
  \<^verbatim>\<open>push_to_pool\<close>, called with a list as \<^verbatim>\<open>resend_check_ip\<close> does (the wrapping of a
  single endpoint into a list does not arise).
\<close>

definition push_to_pool :: "string list \<Rightarrow> world \<Rightarrow> (exn + int) \<times> world" where
  "push_to_pool ips w =
     (case Redis_share w of
        Inl e \<Rightarrow> (Inl e, w)
      | Inr u \<Rightarrow>
          (Inr (int (length ips)),
           Logger_info ''[check] send %d ip to check pools'' [AInt (int (length ips))] (rpush ips w)))"

text \<open>
  The \<^verbatim>\<open>for i in range(...)\<close> loop of \<^verbatim>\<open>resend_check_ip\<close> (lines 161-173) over the band
  starts \<open>i\<close>.
\<close>

fun resend_bands :: "Config \<Rightarrow> int list \<Rightarrow> world \<Rightarrow> (exn + unit) \<times> world" where
  "resend_bands cfg [] w = (Inr (), w)"
| "resend_bands cfg (i # scores) w =
     (let end_score = i + DEFAULT_INC_SCORE cfg - 1;
          ips = zrangebyscore (ip_pool w) i end_score;
          needs_check = ips
      in if needs_check \<noteq> [] then
           (case push_to_pool needs_check w of
              (Inl e, w1) \<Rightarrow> (Inl e, w1)
            | (Inr n, w1) \<Rightarrow> resend_bands cfg scores w1)
         else resend_bands cfg scores w)"

text \<open>
  The test of line 159, \<^verbatim>\<open>check_pool_len >= ip_pool_len * Config.RE_PUSH_TO_CHECK_POOL_RATE\<close>,
  in Python's arithmetic: the product is a float.
\<close>

definition backpressure :: "Config \<Rightarrow> world \<Rightarrow> exn + bool" where
  "backpressure cfg w =
     (let check_pool_len = llen (check_pool w);
          ip_pool_len = zcount (ip_pool w)
      in case int_mul_float ip_pool_len (RE_PUSH_TO_CHECK_POOL_RATE cfg) of
           Inl e \<Rightarrow> Inl e
         | Inr product \<Rightarrow> Inr (int_ge_float check_pool_len product))"

definition resend_check_ip :: "Config \<Rightarrow> world \<Rightarrow> (exn + unit) \<times> world" where
  "resend_check_ip cfg w =
     (case Redis_share w of
        Inl e \<Rightarrow> (Inl e, w)
      | Inr u \<Rightarrow>
          (case backpressure cfg w of
             Inl e \<Rightarrow> (Inl e, w)
           | Inr full \<Rightarrow>
               if full then (Inr (), w)
               else
                 (case py_range (DEFAULT_MINI_SCORE cfg + 1)
                         (DEFAULT_MAX_SCORE cfg + DEFAULT_INC_SCORE cfg) (DEFAULT_INC_SCORE cfg) of
                    Inl e \<Rightarrow> (Inl e, w)
                  | Inr scores \<Rightarrow> resend_bands cfg scores w)))"

section \<open>The task loops\<close>

definition handle_task_exception :: "exn \<Rightarrow> world \<Rightarrow> (exn + unit) \<times> world" where
  "handle_task_exception e w = (Inr (), asyncio_sleep 5 (Logger_error (''[error] '' @ str_exn e) w))"

text \<open>The \<^verbatim>\<open>try\<close> block of \<^verbatim>\<open>recheck_ip_task\<close> (lines 54-56).\<close>

definition recheck_ip_try :: "Config \<Rightarrow> world \<Rightarrow> (exn + unit) \<times> world" where
  "recheck_ip_try cfg w =
     (case last_time_check ''recheck_ip'' (DEFAULT_CHECK_INTERVAL cfg) w of
        Inl e \<Rightarrow> (Inl e, w)
      | Inr recent \<Rightarrow>
          if \<not> recent then
            (case save_last_time ''recheck_ip'' w of
               (Inl e, w1) \<Rightarrow> (Inl e, w1)
             | (Inr u, w1) \<Rightarrow> resend_check_ip cfg w1)
          else (Inr (), w))"

text \<open>
  One pass through the loop of \<^verbatim>\<open>recheck_ip_task\<close>, up to the test of \<^verbatim>\<open>APP_ENV\<close>
  (lines 52-58).
\<close>

definition recheck_ip_task_body :: "Config \<Rightarrow> world \<Rightarrow> (exn + unit) \<times> world" where
  "recheck_ip_task_body cfg w =
     (case recheck_ip_try cfg (Logger_debug ''[check] recheck ip task loop'' w) of
        (Inl e, w1) \<Rightarrow> handle_task_exception e w1
      | (Inr u, w1) \<Rightarrow> (Inr (), w1))"

text \<open>
  What \<^verbatim>\<open>start_check\<close> needs of the files that are not among the sources: the network,
  \<^verbatim>\<open>IPData.with_str\<close> (parsing an endpoint string, which may raise) and
  \<^verbatim>\<open>IPSaver.save_ip\<close> (the score ledger, whose policy the spec leaves open).
\<close>

record env =
  network :: "world net"
  with_str :: "string \<Rightarrow> exn + IPData"
  save_ip :: "IPData \<Rightarrow> world \<Rightarrow> (exn + unit) \<times> world"

definition rules_items :: "(string \<times> bool) list \<Rightarrow> string" where
  "rules_items rl = str_join '' '' (map (\<lambda>(k, r). k @ '' '' @ str_bool r) rl)"

definition start_check :: "env \<Rightarrow> Config \<Rightarrow> world \<Rightarrow> ((exn + unit) \<times> world) option" where
  "start_check ev cfg w =
     (case blpop w of
        None \<Rightarrow> None
      | Some (Inl e, w1) \<Rightarrow> Some (Inl e, w1)
      | Some (Inr ip_str, w1) \<Rightarrow>
          (let w2 = Logger_info ''[check] got ip %s'' [AStr ip_str] w1;
               w3 = w2\<lparr>IP_CHECK_TOTAL := IP_CHECK_TOTAL w2 + 1\<rparr>
           in case with_str ev ip_str of
                Inl e \<Rightarrow> Some (Inl e, w3)
              | Inr ip \<Rightarrow>
                  (case check_stages (network ev) cfg ip w3 of
                     (Inl e, w4) \<Rightarrow> Some (Inl e, w4)
                   | (Inr ip1, w4) \<Rightarrow>
                       Some (save_ip ev ip1
                         (Logger_info ''[check] Check result %s http %s https %s %s''
                            [AStr (to_str ip1), ABool (http ip1), ABool (https ip1),
                             AStr (rules_items (rules ip1))] w4)))))"

text \<open>
  One pass through the loop of \<^verbatim>\<open>check_task\<close>, up to the test of \<^verbatim>\<open>APP_ENV\<close> (lines
  28-32).
\<close>

definition check_task_body :: "env \<Rightarrow> Config \<Rightarrow> world \<Rightarrow> ((exn + unit) \<times> world) option" where
  "check_task_body ev cfg w =
     (case start_check ev cfg (Logger_debug ''[check] check task loop'' w) of
        None \<Rightarrow> None
      | Some (Inl e, w1) \<Rightarrow> Some (handle_task_exception e w1)
      | Some (Inr u, w1) \<Rightarrow> Some (Inr (), w1))"

text \<open>
  Where a task stands: it has returned or raised (\<open>Returned\<close>), it is at the head of its
  \<^verbatim>\<open>while True\<close> loop with the passes so far behind it (\<open>Running\<close>), or it waits in
  \<^verbatim>\<open>BLPOP\<close> for an element that never comes (\<open>Blocked\<close>).
\<close>

datatype task_state = Returned "(exn + unit) \<times> world" | Running world | Blocked

text \<open>
  \<^verbatim>\<open>check_task\<close>: the \<^verbatim>\<open>while True\<close> loop, followed for at most \<open>n\<close> passes from the state
  \<open>w\<close>.  \<open>Returned (Inl e, w1)\<close> would be a task that ended with the exception \<open>e\<close>.
\<close>

fun check_task :: "nat \<Rightarrow> env \<Rightarrow> Config \<Rightarrow> world \<Rightarrow> task_state" where
  "check_task 0 ev cfg w = Running w"
| "check_task (Suc n) ev cfg w =
     (case check_task_body ev cfg w of
        None \<Rightarrow> Blocked
      | Some (Inl e, w1) \<Rightarrow> Returned (Inl e, w1)
      | Some (Inr u, w1) \<Rightarrow>
          if APP_ENV cfg = TEST then Returned (Inr (), w1) else check_task n ev cfg w1)"

section \<open>The outcomes the specification speaks of\<close>

text \<open>
  The HTTPS echo URL, the value of \<^verbatim>\<open>NORMAL_CHECK_URL.replace('http', 'https', 1)\<close>.
\<close>

definition HTTPS_CHECK_URL :: string where
  "HTTPS_CHECK_URL = ''https://httpbin.org/get''"

text \<open>
  In the specification's words, an echo request succeeds when ``the response is parseable
  and contains the origin field'': the request returned a response whose body decodes to
  a JSON object with a key \<^verbatim>\<open>origin\<close>.
\<close>

definition has_origin_field :: "exn + response \<Rightarrow> bool" where
  "has_origin_field r =
     (case r of
        Inl e \<Rightarrow> False
      | Inr resp \<Rightarrow>
          (case resp_json resp of
             Inr (JObj kvs) \<Rightarrow> (case map_of kvs ''origin'' of None \<Rightarrow> False | Some v \<Rightarrow> True)
           | _ \<Rightarrow> False))"

text \<open>The same with a value of \<^verbatim>\<open>origin\<close> that Python counts as true.\<close>

definition origin_truthy :: "exn + response \<Rightarrow> bool" where
  "origin_truthy r =
     (case r of
        Inl e \<Rightarrow> False
      | Inr resp \<Rightarrow>
          (case resp_json resp of
             Inr (JObj kvs) \<Rightarrow> (case map_of kvs ''origin'' of None \<Rightarrow> False | Some v \<Rightarrow> truthy v)
           | _ \<Rightarrow> False))"

text \<open>
  In the specification's words, a rule succeeds when the probe request completes and,
  if \<^verbatim>\<open>containsSubstring\<close> is set, the body contains it.
\<close>

definition rule_passes :: "RuleData \<Rightarrow> exn + response \<Rightarrow> bool" where
  "rule_passes rule r =
     (case r of
        Inl e \<Rightarrow> False
      | Inr resp \<Rightarrow>
          (case resp_text resp of
             Inl e \<Rightarrow> False
           | Inr body \<Rightarrow> (case contains rule of None \<Rightarrow> True | Some sub \<Rightarrow> sublist sub body)))"

text \<open>The keys of the enabled rules of a rule list, in the order of the list.\<close>

fun enabled_keys :: "rule_entry list \<Rightarrow> string list" where
  "enabled_keys [] = []"
| "enabled_keys (Rule r # rs) = (if enable r then key r # enabled_keys rs else enabled_keys rs)"
| "enabled_keys (NotRuleData # rs) = enabled_keys rs"

text \<open>
  The outcomes of the rule stage in the specification's words: one for each enabled
  rule, in the order of the list, each the success of the rule's own request, made in
  the world the requests before it left.
\<close>

fun rule_outcomes :: "'w net \<Rightarrow> IPData \<Rightarrow> rule_entry list \<Rightarrow> 'w \<Rightarrow> (string \<times> bool) list" where
  "rule_outcomes nt ip [] w = []"
| "rule_outcomes nt ip (NotRuleData # rs) w = rule_outcomes nt ip rs w"
| "rule_outcomes nt ip (Rule rule # rs) w =
     (if enable rule then
        (key rule, rule_passes rule (fst (session_get nt (url rule) (to_http ip) w))) #
          rule_outcomes nt ip rs (snd (session_get nt (url rule) (to_http ip) w))
      else rule_outcomes nt ip rs w)"

section \<open>Concrete inputs\<close>

text \<open>
  Test doubles for the examples below.  \<open>url_net answer clk\<close> is a network that answers
  each URL in a fixed way; its world is the number of requests made so far, and the
  clock reads \<open>clk\<close> of it.
\<close>

definition url_net :: "(string \<Rightarrow> exn + response) \<Rightarrow> (nat \<Rightarrow> int) \<Rightarrow> nat net" where
  "url_net answer clk = \<lparr>session_get = (\<lambda>u proxy n. (answer u, Suc n)), now = clk\<rparr>"

definition json_response :: "json \<Rightarrow> response" where
  "json_response j = \<lparr>resp_json = Inr j, resp_text = Inr []\<rparr>"

definition text_response :: "string \<Rightarrow> response" where
  "text_response body = \<lparr>resp_json = Inl (LibraryError ''JSONDecodeError''), resp_text = Inr body\<rparr>"

definition echo_answer :: "bool \<Rightarrow> bool \<Rightarrow> string \<Rightarrow> exn + response" where
  "echo_answer a b u =
     (if u = NORMAL_CHECK_URL then
        (if a then Inr (json_response (JObj [(''origin'', JStr ''10.0.0.1'')]))
         else Inl (LibraryError ''timeout''))
      else if u = HTTPS_CHECK_URL then
        (if b then Inr (json_response (JObj [(''origin'', JStr ''10.0.0.1'')]))
         else Inl (LibraryError ''timeout''))
      else if u = ''http://example.com/hello'' then Inr (text_response ''hello world'')
      else if u = ''http://example.com/bye'' then Inr (text_response ''goodbye'')
      else Inl (LibraryError ''connection refused''))"

definition empty_origin_answer :: "string \<Rightarrow> exn + response" where
  "empty_origin_answer u = Inr (json_response (JObj [(''origin'', JStr [])]))"

definition frozen_clock :: "nat \<Rightarrow> int" where
  "frozen_clock n = 0"

definition ip0 :: IPData where
  "ip0 = \<lparr>endpoint = ''10.0.0.1:8080'', http = None, https = None, rules = [], delay = None\<rparr>"

definition hello_rule :: RuleData where
  "hello_rule = \<lparr>key = ''hello'', url = ''http://example.com/hello'', contains = Some ''hello'', enable = True\<rparr>"

definition bye_rule :: RuleData where
  "bye_rule = \<lparr>key = ''bye'', url = ''http://example.com/bye'', contains = Some ''hello'', enable = True\<rparr>"

definition down_rule :: RuleData where
  "down_rule = \<lparr>key = ''down'', url = ''http://example.com/down'', contains = None, enable = True\<rparr>"

definition off_rule :: RuleData where
  "off_rule = \<lparr>key = ''off'', url = ''http://example.com/hello'', contains = None, enable = False\<rparr>"

definition clash_rule :: RuleData where
  "clash_rule = \<lparr>key = ''hello'', url = ''http://example.com/down'', contains = None, enable = True\<rparr>"

text \<open>The double \<open>m * 2 ^ e\<close>, for a significand and an exponent within the format.\<close>

definition dyadic :: "int \<Rightarrow> int \<Rightarrow> double" where
  "dyadic m e = Abs_double (of_int m * 2 powr of_int e)"

text \<open>
  The spec's example values: scores from 1 to 100 in bands of 10 and the ratio 1.0; the
  same with another ratio, and outside test mode.
\<close>

definition rate_config :: "double \<Rightarrow> Config" where
  "rate_config r =
     \<lparr>APP_ENV = TEST, RULES = [], DEFAULT_MINI_SCORE = 0, DEFAULT_MAX_SCORE = 100,
      DEFAULT_INC_SCORE = 10, RE_PUSH_TO_CHECK_POOL_RATE = r, DEFAULT_CHECK_INTERVAL = 60\<rparr>"

definition test_config :: "rule_entry list \<Rightarrow> Config" where
  "test_config rs = (rate_config (dyadic 1 0))\<lparr>RULES := rs\<rparr>"

definition production_config :: "rule_entry list \<Rightarrow> Config" where
  "production_config rs = (test_config rs)\<lparr>APP_ENV := PRODUCTION\<rparr>"

text \<open>
  A store that is up, with the given check pool and IP pool, no recorded run, and the
  clock at 1000.
\<close>

definition demo_world :: "string list \<Rightarrow> (string \<times> int) list \<Rightarrow> world" where
  "demo_world q pool =
     \<lparr>check_pool = q, ip_pool = pool, last_time = (\<lambda>k. None), redis_fault = None,
      clock = 1000, IP_CHECK_TOTAL = 0, events = []\<rparr>"

definition five_pool :: "(string \<times> int) list" where
  "five_pool = [(''a'', 5), (''b'', 15), (''c'', 100), (''d'', 0), (''e'', - 50)]"

definition four_pool :: "(string \<times> int) list" where
  "four_pool = [(''a'', - 50), (''b'', 0), (''c'', 1), (''d'', 100)]"

definition ten :: "string list" where
  "ten = [''p0'', ''p1'', ''p2'', ''p3'', ''p4'', ''p5'', ''p6'', ''p7'', ''p8'', ''p9'']"

definition ten_pool :: "(string \<times> int) list" where
  "ten_pool = map (\<lambda>m. (m, 50)) ten"

text \<open>
  A check pool of 7 and an IP pool of 25, all with score 50; the double nearest to 0.28
  is \<open>dyadic 1261007895663739 (- 52)\<close>.
\<close>

definition seven :: "string list" where
  "seven = [''q0'', ''q1'', ''q2'', ''q3'', ''q4'', ''q5'', ''q6'']"

definition pool25 :: "(string \<times> int) list" where
  "pool25 =
     [(''p00'', 50), (''p01'', 50), (''p02'', 50), (''p03'', 50), (''p04'', 50), (''p05'',
      50), (''p06'', 50), (''p07'', 50), (''p08'', 50), (''p09'', 50), (''p10'', 50),
      (''p11'', 50), (''p12'', 50), (''p13'', 50), (''p14'', 50), (''p15'', 50), (''p16'',
      50), (''p17'', 50), (''p18'', 50), (''p19'', 50), (''p20'', 50), (''p21'', 50),
      (''p22'', 50), (''p23'', 50), (''p24'', 50)]"

text \<open>The same store at time \<open>t\<close>, with a run recorded at time 0.\<close>

definition stamped_world :: "int \<Rightarrow> world" where
  "stamped_world t =
     (demo_world [''x''] five_pool)\<lparr>last_time := (\<lambda>k. None)(''recheck_ip'' := Some 0), clock := t\<rparr>"

text \<open>
  Doubles for the collaborators of \<^verbatim>\<open>start_check\<close>: a network on the shared state (each
  request takes one second), an endpoint parser that accepts every string, and a score
  ledger that does nothing.
\<close>

definition store_net :: "(string \<Rightarrow> exn + response) \<Rightarrow> world net" where
  "store_net answer =
     \<lparr>session_get = (\<lambda>u proxy w. (answer u, w\<lparr>clock := clock w + 1\<rparr>)),
      now = (\<lambda>w. clock w * 1000000)\<rparr>"

definition parse_endpoint :: "string \<Rightarrow> exn + IPData" where
  "parse_endpoint s = Inr \<lparr>endpoint = s, http = None, https = None, rules = [], delay = None\<rparr>"

definition ledger_noop :: "IPData \<Rightarrow> world \<Rightarrow> (exn + unit) \<times> world" where
  "ledger_noop ip w = (Inr (), w)"

definition test_env :: env where
  "test_env = \<lparr>network = store_net (echo_answer True False), with_str = parse_endpoint,
               save_ip = ledger_noop\<rparr>"

text \<open>A store that is down, and the state in which the pipeline meets a malformed rule.\<close>

definition down_world :: world where
  "down_world = (demo_world [''10.0.0.1:8080''] [])\<lparr>redis_fault := Some (LibraryError ''connection refused'')\<rparr>"

definition asserted_world :: world where
  "asserted_world =
     \<lparr>check_pool = [], ip_pool = [], last_time = (\<lambda>k. None), redis_fault = None, clock = 1002,
      IP_CHECK_TOTAL = 1,
      events = [LogDebug ''[check] check task loop'',
                LogInfo ''[check] got ip %s'' [AStr ''10.0.0.1:8080'']]\<rparr>"

section \<open>Properties of the validation pipeline\<close>

lemma to_http_update [simp]:
  "to_http (ip\<lparr>http := h\<rparr>) = to_http ip"
  "to_http (ip\<lparr>https := h\<rparr>) = to_http ip"
  "to_http (ip\<lparr>delay := d\<rparr>) = to_http ip"
  "to_http (ip\<lparr>rules := rl\<rparr>) = to_http ip"
  by (simp_all add: to_http_def)

lemma origin_probe_Inr: "(origin_probe r = Inr ()) = origin_truthy r"
  by (auto simp: origin_probe_def origin_truthy_def dict_get_def split: sum.splits json.splits option.splits)

lemma str_find_sublist: "(str_find s sub < 0) = (\<not> sublist sub s)"
proof (induction s)
  case Nil
  then show ?case by simp
next
  case (Cons c cs)
  then show ?case by (auto simp: Let_def sublist_Cons_right)
qed

lemma rule_probe_Inr: "(rule_probe rule r = Inr ()) = rule_passes rule r"
  by (auto simp: rule_probe_def rule_passes_def str_find_sublist split: sum.splits option.splits)

lemma http_check_eq:
  "http_check nt ip w =
     (if origin_truthy (fst (session_get nt NORMAL_CHECK_URL (to_http ip) w))
      then ip\<lparr>delay := Some (total_seconds
                (now nt (snd (session_get nt NORMAL_CHECK_URL (to_http ip) w)) - now nt w)),
              http := Some True\<rparr>
      else ip\<lparr>http := Some False\<rparr>,
      snd (session_get nt NORMAL_CHECK_URL (to_http ip) w))"
proof (cases "origin_probe (fst (session_get nt NORMAL_CHECK_URL (to_http ip) w))")
  case (Inl e)
  then have "\<not> origin_truthy (fst (session_get nt NORMAL_CHECK_URL (to_http ip) w))"
    using origin_probe_Inr by (metis Inl_Inr_False)
  with Inl show ?thesis by (simp add: http_check_def Let_def split_beta)
next
  case (Inr u)
  then have "origin_truthy (fst (session_get nt NORMAL_CHECK_URL (to_http ip) w))"
    using origin_probe_Inr by (metis old.unit.exhaust)
  with Inr show ?thesis by (simp add: http_check_def Let_def split_beta)
qed

lemma https_url: "str_replace1 ''http'' ''https'' NORMAL_CHECK_URL = HTTPS_CHECK_URL"
  by (simp add: NORMAL_CHECK_URL_def HTTPS_CHECK_URL_def)

lemma https_check_eq:
  "https_check nt ip w =
     (ip\<lparr>https := Some (origin_truthy (fst (session_get nt HTTPS_CHECK_URL (to_http ip) w)))\<rparr>,
      snd (session_get nt HTTPS_CHECK_URL (to_http ip) w))"
proof (cases "origin_probe (fst (session_get nt HTTPS_CHECK_URL (to_http ip) w))")
  case (Inl e)
  then have "\<not> origin_truthy (fst (session_get nt HTTPS_CHECK_URL (to_http ip) w))"
    using origin_probe_Inr by (metis Inl_Inr_False)
  with Inl show ?thesis by (simp add: https_check_def https_url Let_def split_beta)
next
  case (Inr u)
  then have "origin_truthy (fst (session_get nt HTTPS_CHECK_URL (to_http ip) w))"
    using origin_probe_Inr by (metis old.unit.exhaust)
  with Inr show ?thesis by (simp add: https_check_def https_url Let_def split_beta)
qed

lemma rules_loop_step:
  "rules_loop nt ip (Rule rule # rs) acc w =
     (if \<not> enable rule then rules_loop nt ip rs acc w
      else rules_loop nt ip rs
             (AList.update (key rule) (rule_passes rule (fst (session_get nt (url rule) (to_http ip) w))) acc)
             (snd (session_get nt (url rule) (to_http ip) w)))"
proof (cases "rule_probe rule (fst (session_get nt (url rule) (to_http ip) w))")
  case (Inl e)
  then have "\<not> rule_passes rule (fst (session_get nt (url rule) (to_http ip) w))"
    using rule_probe_Inr by (metis Inl_Inr_False)
  with Inl show ?thesis by (simp add: Let_def split_beta)
next
  case (Inr u)
  then have "rule_passes rule (fst (session_get nt (url rule) (to_http ip) w))"
    using rule_probe_Inr by (metis old.unit.exhaust)
  with Inr show ?thesis by (simp add: Let_def split_beta)
qed

lemma rules_loop_append:
  "rules_loop nt ip (xs @ ys) acc w =
     (case rules_loop nt ip xs acc w of
        (Inl e, w1) \<Rightarrow> (Inl e, w1)
      | (Inr acc1, w1) \<Rightarrow> rules_loop nt ip ys acc1 w1)"
proof (induction xs arbitrary: acc w)
  case Nil
  show ?case by simp
next
  case (Cons x xs)
  show ?case
  proof (cases x)
    case (Rule rule)
    show ?thesis unfolding Rule append_Cons rules_loop_step using Cons.IH by simp
  next
    case NotRuleData
    then show ?thesis by simp
  qed
qed

lemma rules_loop_total:
  "list_all is_RuleData rs \<Longrightarrow> \<exists>acc1 w1. rules_loop nt ip rs acc w = (Inr acc1, w1)"
proof (induction rs arbitrary: acc w)
  case Nil
  show ?case by simp
next
  case (Cons x rs)
  then obtain rule where x: "x = Rule rule" by (cases x) auto
  from Cons.prems have rs: "list_all is_RuleData rs" by simp
  show ?case unfolding x rules_loop_step using Cons.IH [OF rs] by simp
qed

lemma rules_loop_keys:
  "rules_loop nt ip rs acc w = (Inr acc1, w1) \<Longrightarrow>
   fst ` set acc1 = fst ` set acc \<union> {key rule | rule. Rule rule \<in> set rs \<and> enable rule}"
proof (induction rs arbitrary: acc w)
  case Nil
  then show ?case by simp
next
  case (Cons x rs)
  show ?case
  proof (cases x)
    case NotRuleData
    with Cons.prems show ?thesis by simp
  next
    case (Rule rule)
    show ?thesis
    proof (cases "enable rule")
      case False
      with Cons.prems Rule have "rules_loop nt ip rs acc w = (Inr acc1, w1)"
        by (simp add: rules_loop_step del: rules_loop.simps(3))
      from Cons.IH [OF this] Rule False show ?thesis by auto
    next
      case True
      with Cons.prems Rule have "rules_loop nt ip rs
             (AList.update (key rule) (rule_passes rule (fst (session_get nt (url rule) (to_http ip) w))) acc)
             (snd (session_get nt (url rule) (to_http ip) w)) = (Inr acc1, w1)"
        by (simp add: rules_loop_step del: rules_loop.simps(3))
      from Cons.IH [OF this] Rule True show ?thesis by (auto simp: AList.dom_update)
    qed
  qed
qed

lemma rules_loop_other_key:
  "rules_loop nt ip rs acc w = (Inr acc1, w1) \<Longrightarrow>
   (\<forall>r. Rule r \<in> set rs \<longrightarrow> enable r \<longrightarrow> key r \<noteq> k) \<Longrightarrow>
   map_of acc1 k = map_of acc k"
proof (induction rs arbitrary: acc w)
  case Nil
  then show ?case by simp
next
  case (Cons x rs)
  show ?case
  proof (cases x)
    case NotRuleData
    with Cons.prems show ?thesis by simp
  next
    case (Rule rule)
    from Cons.prems(2) have rest: "\<forall>r. Rule r \<in> set rs \<longrightarrow> enable r \<longrightarrow> key r \<noteq> k" by simp
    show ?thesis
    proof (cases "enable rule")
      case False
      with Cons.prems Rule have "rules_loop nt ip rs acc w = (Inr acc1, w1)"
        by (simp add: rules_loop_step del: rules_loop.simps(3))
      from Cons.IH [OF this rest] show ?thesis .
    next
      case True
      with Cons.prems(2) Rule have ne: "key rule \<noteq> k" by simp
      from True Cons.prems(1) Rule have "rules_loop nt ip rs
             (AList.update (key rule) (rule_passes rule (fst (session_get nt (url rule) (to_http ip) w))) acc)
             (snd (session_get nt (url rule) (to_http ip) w)) = (Inr acc1, w1)"
        by (simp add: rules_loop_step del: rules_loop.simps(3))
      from Cons.IH [OF this rest] ne show ?thesis by (simp add: AList.update_conv')
    qed
  qed
qed

lemma rules_loop_rules_update: "rules_loop nt (ip\<lparr>rules := old\<rparr>) rs acc w = rules_loop nt ip rs acc w"
proof (induction rs arbitrary: acc w)
  case Nil
  show ?case by simp
next
  case (Cons x rs)
  show ?case
  proof (cases x)
    case (Rule rule)
    show ?thesis unfolding Rule rules_loop_step using Cons.IH by simp
  next
    case NotRuleData
    then show ?thesis by simp
  qed
qed

lemma set_enabled_keys:
  "set (enabled_keys rs) = {key rule | rule. Rule rule \<in> set rs \<and> enable rule}"
proof (induction rs)
  case Nil
  show ?case by simp
next
  case (Cons x rs)
  then show ?case by (cases x) auto
qed

lemma rule_outcomes_cong:
  "to_http ip' = to_http ip \<Longrightarrow> rule_outcomes nt ip' rs w = rule_outcomes nt ip rs w"
proof (induction rs arbitrary: w)
  case Nil
  show ?case by simp
next
  case (Cons x rs)
  then show ?case by (cases x) simp_all
qed

lemma rules_loop_outcomes:
  "list_all is_RuleData rs \<Longrightarrow>
   fst (rules_loop nt ip rs acc w) =
     Inr (fold (\<lambda>(k, b). AList.update k b) (rule_outcomes nt ip rs w) acc)"
proof (induction rs arbitrary: acc w)
  case Nil
  show ?case by simp
next
  case (Cons x rs)
  then obtain rule where x: "x = Rule rule" by (cases x) auto
  from Cons.prems have rs: "list_all is_RuleData rs" by simp
  show ?case unfolding x rules_loop_step using Cons.IH [OF rs] by simp
qed

section \<open>Properties of the float arithmetic\<close>

text \<open>
  Rounding never carries a real above an integer it does not exceed, and integers below
  \<open>2 ^ 53\<close> are doubles.  So a queue length that reaches the exact product of the pool
  size and the ratio also reaches the product Python computes.
\<close>

lemma round_half_even_le: "y \<le> of_int N \<Longrightarrow> round_half_even y \<le> N"
proof -
  assume y: "y \<le> of_int N"
  have f: "\<lfloor>y\<rfloor> \<le> N" using floor_mono [OF y] by simp
  show ?thesis
  proof (cases "\<lfloor>y\<rfloor> = N")
    case True
    then have "of_int N \<le> y" by (metis of_int_floor_le)
    with y have "y = of_int N" by simp
    then show ?thesis by (simp add: round_half_even_def)
  next
    case False
    with f have "\<lfloor>y\<rfloor> + 1 \<le> N" by simp
    then show ?thesis using f by (simp add: round_half_even_def Let_def)
  qed
qed

lemma round_half_even_of_int [simp]: "round_half_even (of_int n) = n"
  by (simp add: round_half_even_def)

lemma ulp_exponent_nonpos:
  assumes "x \<noteq> 0" and "\<bar>x\<bar> < 2 ^ 53"
  shows "ulp_exponent x \<le> 0"
proof -
  have pos: "0 < \<bar>x\<bar>" using assms(1) by simp
  have "\<bar>x\<bar> < 2 powr 53" using assms(2) by simp
  then have "log 2 \<bar>x\<bar> < 53" using pos by (simp add: log_less_iff)
  then have "\<lfloor>log 2 \<bar>x\<bar>\<rfloor> \<le> 52" by (simp add: floor_le_iff)
  then show ?thesis by (simp add: ulp_exponent_def)
qed

lemma powr_nonpos_int:
  assumes "e \<le> (0::int)"
  shows "(2::real) powr of_int e = 1 / 2 ^ nat (- e)"
  using assms by (simp add: powr_real_of_int inverse_eq_divide)

lemma round_to_double_le_int:
  assumes "x \<le> real_of_int q" and "0 \<le> q" and "q < 2 ^ 53"
  shows "round_to_double x \<le> real_of_int q"
proof (cases "x = 0")
  case True
  then show ?thesis using assms(2) by (simp add: round_to_double_def)
next
  case False
  let ?u = "(2::real) powr of_int (ulp_exponent x)"
  have u: "0 < ?u" by simp
  show ?thesis
  proof (cases "x < 0")
    case True
    then have "x / ?u \<le> of_int 0" using u by (simp add: divide_nonpos_pos)
    then have "round_half_even (x / ?u) \<le> 0" by (rule round_half_even_le)
    then have "of_int (round_half_even (x / ?u)) * ?u \<le> 0"
      using u by (simp add: mult_nonpos_nonneg)
    then show ?thesis using False assms(2) by (simp add: round_to_double_def)
  next
    case nonneg: False
    with False have xpos: "0 < x" by simp
    have "real_of_int q < 2 ^ 53" using assms(3) by simp
    then have "x < 2 ^ 53" using assms(1) by linarith
    then have e: "ulp_exponent x \<le> 0" using xpos by (intro ulp_exponent_nonpos) simp_all
    define j where "j = nat (- ulp_exponent x)"
    have ueq: "?u = 1 / 2 ^ j" unfolding j_def by (rule powr_nonpos_int [OF e])
    have "x / ?u \<le> real_of_int q / ?u" using assms(1) u by (simp add: divide_right_mono)
    also have "real_of_int q / ?u = of_int (q * 2 ^ j)" by (simp add: ueq)
    finally have "round_half_even (x / ?u) \<le> q * 2 ^ j" by (rule round_half_even_le)
    then have "real_of_int (round_half_even (x / ?u)) \<le> real_of_int (q * 2 ^ j)" by linarith
    then have "real_of_int (round_half_even (x / ?u)) * ?u \<le> real_of_int (q * 2 ^ j) * ?u"
      using u by (simp add: mult_right_mono)
    also have "real_of_int (q * 2 ^ j) * ?u = real_of_int q" by (simp add: ueq)
    finally show ?thesis using False by (simp add: round_to_double_def)
  qed
qed

lemma round_to_double_of_int:
  assumes "\<bar>n\<bar> < 2 ^ 53"
  shows "round_to_double (real_of_int n) = real_of_int n"
proof (cases "n = 0")
  case True
  then show ?thesis by (simp add: round_to_double_def)
next
  case False
  let ?x = "real_of_int n"
  let ?u = "(2::real) powr of_int (ulp_exponent ?x)"
  have "real_of_int \<bar>n\<bar> < 2 ^ 53" using assms by simp
  then have "\<bar>?x\<bar> < 2 ^ 53" by simp
  then have e: "ulp_exponent ?x \<le> 0" using False by (intro ulp_exponent_nonpos) simp_all
  define j where "j = nat (- ulp_exponent ?x)"
  have ueq: "?u = 1 / 2 ^ j" unfolding j_def by (rule powr_nonpos_int [OF e])
  have "?x / ?u = of_int (n * 2 ^ j)" by (simp add: ueq)
  then have "round_half_even (?x / ?u) = n * 2 ^ j" by (simp only: round_half_even_of_int)
  then have "of_int (round_half_even (?x / ?u)) * ?u = ?x" by (simp add: ueq)
  then show ?thesis using False by (simp add: round_to_double_def)
qed

lemma float_val_dyadic:
  assumes "\<bar>m\<bar> < 2 ^ 53" and "- 1074 \<le> e" and "e \<le> 971"
  shows "float_val (dyadic m e) = of_int m * 2 powr of_int e"
  unfolding float_val_def dyadic_def
  by (rule Abs_double_inverse) (use assms in blast)

lemma float_val_one [simp]: "float_val (dyadic 1 0) = 1"
  by (simp add: float_val_dyadic)

lemma float_result_le_int:
  assumes "x \<le> real_of_int q" and "0 \<le> q" and "q < 2 ^ 53"
  shows "int_ge_float q (float_result x)"
proof -
  have le: "round_to_double x \<le> real_of_int q"
    by (rule round_to_double_le_int [OF assms])
  have "real_of_int q < 2 ^ 53" using assms(3) by simp
  also have "(2::real) ^ 53 \<le> 2 ^ 1024" by (rule power_increasing) simp_all
  finally have "\<not> 2 ^ 1024 \<le> round_to_double x" using le by linarith
  then show ?thesis using le by (simp add: int_ge_float_def float_result_def Let_def)
qed

lemma float_result_of_int:
  assumes "\<bar>n\<bar> < 2 ^ 53"
  shows "float_result (real_of_int n) = Finite (real_of_int n)"
proof -
  have "real_of_int \<bar>n\<bar> < 2 ^ 53" using assms by simp
  also have "(2::real) ^ 53 \<le> 2 ^ 1024" by (rule power_increasing) simp_all
  finally have b: "\<bar>real_of_int n\<bar> < 2 ^ 1024" by simp
  then have "\<not> 2 ^ 1024 \<le> real_of_int n" "\<not> real_of_int n \<le> - (2 ^ 1024)" by linarith+
  then show ?thesis by (simp add: float_result_def round_to_double_of_int [OF assms])
qed

lemma float_result_of_nat:
  "n < 2 ^ 53 \<Longrightarrow> float_result (real n) = Finite (real n)"
  using float_result_of_int [of "int n"] by simp

lemma float_of_int_exact: "\<bar>n\<bar> < 2 ^ 53 \<Longrightarrow> float_of_int n = Inr (real_of_int n)"
  by (simp add: float_of_int_def float_result_of_int)

lemma backpressure_closed:
  assumes "real (length (ip_pool w)) * float_val (RE_PUSH_TO_CHECK_POOL_RATE cfg) \<le> real (length (check_pool w))"
    and "length (ip_pool w) < 2 ^ 53" and "length (check_pool w) < 2 ^ 53"
  shows "backpressure cfg w = Inr True"
proof -
  have n: "\<bar>int (length (ip_pool w))\<bar> < 2 ^ 53" using assms(2) by simp
  have q: "0 \<le> int (length (check_pool w))" "int (length (check_pool w)) < 2 ^ 53"
    using assms(3) by simp_all
  have x: "real_of_int (int (length (ip_pool w))) * float_val (RE_PUSH_TO_CHECK_POOL_RATE cfg)
             \<le> real_of_int (int (length (check_pool w)))"
    using assms(1) by simp
  show ?thesis
    using float_result_le_int [OF x q]
    by (simp add: backpressure_def llen_def zcount_def int_mul_float_def float_of_int_exact [OF n])
qed

lemma backpressure_rate_one:
  assumes "float_val (RE_PUSH_TO_CHECK_POOL_RATE cfg) = 1" and "length (ip_pool w) < 2 ^ 53"
  shows "backpressure cfg w = Inr (length (ip_pool w) \<le> length (check_pool w))"
proof -
  have n: "\<bar>int (length (ip_pool w))\<bar> < 2 ^ 53" using assms(2) by simp
  show ?thesis
    by (simp add: backpressure_def llen_def zcount_def int_mul_float_def float_of_int_exact [OF n]
        assms(1) float_result_of_nat [OF assms(2)] int_ge_float_def)
qed

lemma ulp_exponent_eval:
  assumes "2 powr of_int e \<le> \<bar>x\<bar>" and "\<bar>x\<bar> < 2 powr of_int (e + 1)" and "- 1022 \<le> e"
  shows "ulp_exponent x = e - 52"
proof -
  have pos: "0 < \<bar>x\<bar>" using assms(1) by (smt (verit) powr_gt_zero)
  have "\<lfloor>log 2 \<bar>x\<bar>\<rfloor> = e"
    using assms(1,2) pos by (subst floor_log_eq_powr_iff) simp_all
  then show ?thesis using assms(3) by (simp add: ulp_exponent_def)
qed

text \<open>The double 0.1, a pool of 10 and a queue of 1: the rounded product is 1.0.\<close>

lemma backpressure_tenth:
  assumes "RE_PUSH_TO_CHECK_POOL_RATE cfg = dyadic 3602879701896397 (- 55)"
    and "length (ip_pool w) = 10" and "length (check_pool w) = 1"
  shows "backpressure cfg w = Inr True"
    and "\<not> real (length (ip_pool w)) * float_val (RE_PUSH_TO_CHECK_POOL_RATE cfg) \<le> real (length (check_pool w))"
proof -
  have r: "float_val (RE_PUSH_TO_CHECK_POOL_RATE cfg) = 3602879701896397 / 2 ^ 55"
    unfolding assms(1) by (simp add: float_val_dyadic powr_minus)
  define x :: real where "x = 10 * (3602879701896397 / 2 ^ 55)"
  have u: "ulp_exponent x = 0 - 52"
    by (rule ulp_exponent_eval) (simp_all add: x_def)
  have "round_to_double x = 1"
    unfolding round_to_double_def u by (simp add: x_def powr_minus round_half_even_def)
  then have "float_result x = Finite 1"
    by (simp add: float_result_def)
  then show "backpressure cfg w = Inr True"
    by (simp add: backpressure_def llen_def zcount_def int_mul_float_def float_of_int_exact assms(2,3)
        r x_def int_ge_float_def)
  show "\<not> real (length (ip_pool w)) * float_val (RE_PUSH_TO_CHECK_POOL_RATE cfg) \<le> real (length (check_pool w))"
    by (simp add: assms(2,3) r)
qed

text \<open>The double 0.28, a pool of 25 and a queue of 7: the rounded product is above 7.\<close>

lemma backpressure_028:
  assumes "RE_PUSH_TO_CHECK_POOL_RATE cfg = dyadic 1261007895663739 (- 52)"
    and "length (ip_pool w) = 25" and "length (check_pool w) = 7"
  shows "backpressure cfg w = Inr False"
proof -
  have r: "float_val (RE_PUSH_TO_CHECK_POOL_RATE cfg) = 1261007895663739 / 2 ^ 52"
    unfolding assms(1) by (simp add: float_val_dyadic powr_minus)
  define x :: real where "x = 25 * (1261007895663739 / 2 ^ 52)"
  have u: "ulp_exponent x = 2 - 52"
    by (rule ulp_exponent_eval) (simp_all add: x_def)
  have "round_to_double x = 7881299347898369 / 2 ^ 50"
    unfolding round_to_double_def u by (simp add: x_def powr_minus round_half_even_def)
  then have "float_result x = Finite (7881299347898369 / 2 ^ 50)"
    by (simp add: float_result_def)
  then show ?thesis
    by (simp add: backpressure_def llen_def zcount_def int_mul_float_def float_of_int_exact assms(2,3)
        r x_def int_ge_float_def)
qed

lemma round_to_double_028:
  "round_to_double (28 / 100) = float_val (dyadic 1261007895663739 (- 52))"
proof -
  have u: "ulp_exponent (28 / 100) = - 2 - 52"
    by (rule ulp_exponent_eval) (simp_all add: powr_minus)
  have "round_to_double (28 / 100) = 1261007895663739 / 2 ^ 52"
    unfolding round_to_double_def u by (simp add: powr_minus round_half_even_def)
  then show ?thesis by (simp add: float_val_dyadic powr_minus)
qed

section \<open>Properties of the store operations and the loops\<close>

lemma set_zrangebyscore:
  "set (zrangebyscore pool lo hi) = {m. \<exists>s. (m, s) \<in> set pool \<and> lo \<le> s \<and> s \<le> hi}"
  by (auto simp: zrangebyscore_def image_iff)

lemma distinct_zrangebyscore:
  "distinct (map fst pool) \<Longrightarrow> distinct (zrangebyscore pool lo hi)"
proof -
  assume d: "distinct (map fst pool)"
  have "distinct (map fst (sort_key (\<lambda>(m, s). (s, m)) pool))"
    using d by (simp add: distinct_map)
  then show ?thesis
    unfolding zrangebyscore_def by (rule distinct_map_filter)
qed

lemma count_zrangebyscore:
  assumes "distinct (map fst pool)" and "(e, sc) \<in> set pool"
  shows "count_list (zrangebyscore pool lo hi) e = (if lo \<le> sc \<and> sc \<le> hi then 1 else 0)"
proof -
  have mem: "e \<in> set (zrangebyscore pool lo hi) \<longleftrightarrow> lo \<le> sc \<and> sc \<le> hi"
  proof
    assume "e \<in> set (zrangebyscore pool lo hi)"
    then obtain s where s: "(e, s) \<in> set pool" "lo \<le> s" "s \<le> hi"
      by (auto simp: set_zrangebyscore)
    from assms s(1) have "s = sc" by (meson eq_key_imp_eq_value)
    with s show "lo \<le> sc \<and> sc \<le> hi" by simp
  next
    assume "lo \<le> sc \<and> sc \<le> hi"
    with assms(2) show "e \<in> set (zrangebyscore pool lo hi)"
      by (auto simp: set_zrangebyscore)
  qed
  have "count_list xs x = (if x \<in> set xs then 1 else 0)" if "distinct xs" for xs :: "string list" and x
    using that by (induction xs) auto
  from this [OF distinct_zrangebyscore [OF assms(1)]] mem show ?thesis by simp
qed

lemma zrange_filter_eq:
  assumes "distinct (map fst pool)"
  shows "filter (\<lambda>(m, s). m \<notin> set (zrangebyscore pool lo hi)) pool =
         filter (\<lambda>(m, s). \<not> (lo \<le> s \<and> s \<le> hi)) pool"
proof (rule filter_cong [OF refl])
  fix x assume x: "x \<in> set pool"
  obtain m s where ms: "x = (m, s)" by (cases x)
  have "m \<in> set (zrangebyscore pool lo hi) \<longleftrightarrow> lo \<le> s \<and> s \<le> hi"
  proof
    assume "m \<in> set (zrangebyscore pool lo hi)"
    then obtain s' where s': "(m, s') \<in> set pool" "lo \<le> s'" "s' \<le> hi"
      by (auto simp: set_zrangebyscore)
    from assms s'(1) x ms have "s' = s" by (meson eq_key_imp_eq_value)
    with s' show "lo \<le> s \<and> s \<le> hi" by simp
  next
    assume "lo \<le> s \<and> s \<le> hi"
    with x ms show "m \<in> set (zrangebyscore pool lo hi)" by (auto simp: set_zrangebyscore)
  qed
  then show "(case x of (m, s) \<Rightarrow> m \<notin> set (zrangebyscore pool lo hi)) =
             (case x of (m, s) \<Rightarrow> \<not> (lo \<le> s \<and> s \<le> hi))"
    by (simp add: ms)
qed

lemma push_to_pool_ok:
  "redis_fault w = None \<Longrightarrow>
   push_to_pool ips w =
     (Inr (int (length ips)),
      Logger_info ''[check] send %d ip to check pools'' [AInt (int (length ips))] (rpush ips w))"
  by (simp add: push_to_pool_def Redis_share_def)

lemma push_to_pool_frame:
  "ip_pool (snd (push_to_pool ips w)) = ip_pool w"
  "last_time (snd (push_to_pool ips w)) = last_time w"
  "redis_fault (snd (push_to_pool ips w)) = redis_fault w"
  "clock (snd (push_to_pool ips w)) = clock w"
  by (simp_all add: push_to_pool_def Redis_share_def Logger_info_def rpush_def split: option.splits)

lemma resend_bands_frame:
  "ip_pool (snd (resend_bands cfg scores w)) = ip_pool w \<and>
   last_time (snd (resend_bands cfg scores w)) = last_time w \<and>
   redis_fault (snd (resend_bands cfg scores w)) = redis_fault w \<and>
   clock (snd (resend_bands cfg scores w)) = clock w"
proof (induction scores arbitrary: w)
  case Nil
  show ?case by simp
next
  case (Cons i scores)
  show ?case
  proof (cases "zrangebyscore (ip_pool w) i (i + DEFAULT_INC_SCORE cfg - 1) = []")
    case True
    then show ?thesis using Cons.IH [of w] by (simp add: Let_def)
  next
    case False
    obtain r w1 where p: "push_to_pool (zrangebyscore (ip_pool w) i (i + DEFAULT_INC_SCORE cfg - 1)) w = (r, w1)"
      by (cases "push_to_pool (zrangebyscore (ip_pool w) i (i + DEFAULT_INC_SCORE cfg - 1)) w")
    have f: "ip_pool w1 = ip_pool w" "last_time w1 = last_time w" "redis_fault w1 = redis_fault w"
      "clock w1 = clock w"
      using push_to_pool_frame [of "zrangebyscore (ip_pool w) i (i + DEFAULT_INC_SCORE cfg - 1)" w]
      by (simp_all add: p)
    show ?thesis
    proof (cases r)
      case (Inl e)
      with False p f show ?thesis by (simp add: Let_def)
    next
      case (Inr n)
      with False p f Cons.IH [of w1] show ?thesis by (simp add: Let_def)
    qed
  qed
qed

lemma resend_bands_ok:
  "redis_fault w = None \<Longrightarrow>
   fst (resend_bands cfg scores w) = Inr () \<and>
   check_pool (snd (resend_bands cfg scores w)) =
     check_pool w @ concat (map (\<lambda>i. zrangebyscore (ip_pool w) i (i + DEFAULT_INC_SCORE cfg - 1)) scores)"
proof (induction scores arbitrary: w)
  case Nil
  show ?case by simp
next
  case (Cons i scores)
  let ?ips = "zrangebyscore (ip_pool w) i (i + DEFAULT_INC_SCORE cfg - 1)"
  show ?case
  proof (cases "?ips = []")
    case True
    then show ?thesis using Cons.IH [OF Cons.prems] by (simp add: Let_def)
  next
    case False
    let ?w1 = "Logger_info ''[check] send %d ip to check pools'' [AInt (int (length ?ips))] (rpush ?ips w)"
    have f: "redis_fault ?w1 = None" "ip_pool ?w1 = ip_pool w" "check_pool ?w1 = check_pool w @ ?ips"
      using Cons.prems by (simp_all add: Logger_info_def rpush_def)
    from Cons.IH [OF f(1)] False show ?thesis
      by (simp add: Let_def push_to_pool_ok [OF Cons.prems] f)
  qed
qed

lemma count_list_concat:
  "count_list (concat xss) e = sum_list (map (\<lambda>xs. count_list xs e) xss)"
  by (induction xss) simp_all

lemma sum_list_indicator_upt:
  "sum_list (map (\<lambda>k. if k = k0 then (1::nat) else 0) [0..<n]) = (if k0 < n then 1 else 0)"
  by (induction n) auto

lemma band_unique:
  fixes inc d :: int
  assumes "0 < inc" and "0 \<le> d"
  shows "(int k * inc \<le> d \<and> d \<le> int k * inc + inc - 1) = (k = nat (d div inc))"
proof
  assume a: "int k * inc \<le> d \<and> d \<le> int k * inc + inc - 1"
  have "d div inc = int k"
  proof (rule int_div_pos_eq)
    show "d = inc * int k + (d - int k * inc)" by (simp add: mult.commute)
    show "0 \<le> d - int k * inc" using a by simp
    show "d - int k * inc < inc" using a by simp
  qed
  then show "k = nat (d div inc)" by simp
next
  assume k: "k = nat (d div inc)"
  have nn: "0 \<le> d div inc" using assms by (simp add: pos_imp_zdiv_nonneg_iff)
  have eq: "d = inc * (d div inc) + d mod inc" by simp
  have m: "0 \<le> d mod inc" "d mod inc < inc" using assms by simp_all
  have ik: "int k = d div inc" using k nn by simp
  have "int k * inc \<le> d"
    using eq m(1) unfolding ik by (metis add_increasing2 mult.commute order_refl)
  moreover have "d \<le> int k * inc + inc - 1"
    using eq m(2) unfolding ik by (smt (verit) mult.commute)
  ultimately show "int k * inc \<le> d \<and> d \<le> int k * inc + inc - 1" by simp
qed

lemma band_index_bound:
  fixes inc lo hi sc :: int
  assumes "0 < inc" and "lo < sc" and "sc \<le> hi"
  shows "nat ((sc - lo - 1) div inc) < nat ((hi + inc - (lo + 1) + inc - 1) div inc)"
proof -
  have "(sc - lo - 1) div inc \<le> (hi - lo - 1) div inc"
    using assms by (intro zdiv_mono1) simp_all
  moreover have "(hi + inc - (lo + 1) + inc - 1) div inc = (hi - lo - 1 + (inc - 1)) div inc + 1"
  proof -
    have "hi + inc - (lo + 1) + inc - 1 = (hi - lo - 1 + (inc - 1)) + inc" by simp
    then show ?thesis using assms(1) by (metis div_add_self2 less_irrefl)
  qed
  moreover have "(hi - lo - 1) div inc \<le> (hi - lo - 1 + (inc - 1)) div inc"
    using assms by (intro zdiv_mono1) simp_all
  moreover have "0 \<le> (sc - lo - 1) div inc"
    using assms by (simp add: pos_imp_zdiv_nonneg_iff)
  ultimately show ?thesis by linarith
qed

lemma backpressure_pools:
  "check_pool v = check_pool w \<Longrightarrow> ip_pool v = ip_pool w \<Longrightarrow> backpressure cfg v = backpressure cfg w"
  by (simp add: backpressure_def)

lemma resend_check_ip_open:
  assumes "redis_fault w = None"
    and "backpressure cfg w = Inr False"
    and "0 < DEFAULT_INC_SCORE cfg"
  shows "resend_check_ip cfg w =
           resend_bands cfg
             (map (\<lambda>k. DEFAULT_MINI_SCORE cfg + 1 + int k * DEFAULT_INC_SCORE cfg)
                [0..<nat ((DEFAULT_MAX_SCORE cfg + DEFAULT_INC_SCORE cfg - (DEFAULT_MINI_SCORE cfg + 1)
                           + DEFAULT_INC_SCORE cfg - 1) div DEFAULT_INC_SCORE cfg)]) w"
  using assms by (simp add: resend_check_ip_def Redis_share_def py_range_def)

lemma resend_check_ip_frame:
  "ip_pool (snd (resend_check_ip cfg w)) = ip_pool w \<and>
   last_time (snd (resend_check_ip cfg w)) = last_time w \<and>
   redis_fault (snd (resend_check_ip cfg w)) = redis_fault w \<and>
   clock (snd (resend_check_ip cfg w)) = clock w"
  using resend_bands_frame
  by (simp add: resend_check_ip_def split: sum.splits)

lemma resend_check_ip_closed:
  assumes "backpressure cfg w = Inr True"
  shows "resend_check_ip cfg w = (case redis_fault w of None \<Rightarrow> Inr () | Some e \<Rightarrow> Inl e, w)"
  using assms by (simp add: resend_check_ip_def Redis_share_def split: option.splits)

lemma handle_task_exception_frame:
  "check_pool (snd (handle_task_exception e w)) = check_pool w"
  "ip_pool (snd (handle_task_exception e w)) = ip_pool w"
  "last_time (snd (handle_task_exception e w)) = last_time w"
  by (simp_all add: handle_task_exception_def asyncio_sleep_def Logger_error_def)

lemma recheck_ip_task_body_store:
  "check_pool (snd (recheck_ip_task_body cfg w)) =
     check_pool (snd (recheck_ip_try cfg (Logger_debug ''[check] recheck ip task loop'' w))) \<and>
   ip_pool (snd (recheck_ip_task_body cfg w)) =
     ip_pool (snd (recheck_ip_try cfg (Logger_debug ''[check] recheck ip task loop'' w))) \<and>
   last_time (snd (recheck_ip_task_body cfg w)) =
     last_time (snd (recheck_ip_try cfg (Logger_debug ''[check] recheck ip task loop'' w)))"
  by (simp add: recheck_ip_task_body_def handle_task_exception_frame split: prod.splits sum.splits)

lemma recheck_ip_try_cases:
  "recheck_ip_try cfg w =
     (case redis_fault w of
        Some e \<Rightarrow> (Inl e, w)
      | None \<Rightarrow>
          (case last_time w ''recheck_ip'' of
             None \<Rightarrow> resend_check_ip cfg (w\<lparr>last_time := (last_time w)(''recheck_ip'' := Some (clock w))\<rparr>)
           | Some t \<Rightarrow>
               if clock w - t < DEFAULT_CHECK_INTERVAL cfg then (Inr (), w)
               else resend_check_ip cfg (w\<lparr>last_time := (last_time w)(''recheck_ip'' := Some (clock w))\<rparr>)))"
  by (simp add: recheck_ip_try_def last_time_check_def save_last_time_def Redis_share_def
      split: option.splits)

lemma check_task_body_no_raise: "check_task_body ev cfg w \<noteq> Some (Inl e, w1)"
  by (simp add: check_task_body_def handle_task_exception_def split: option.splits prod.splits sum.splits)

lemma check_task_no_raise: "check_task n ev cfg w \<noteq> Returned (Inl e, w1)"
proof (induction n arbitrary: w)
  case 0
  show ?case by simp
next
  case (Suc n)
  show ?case
  proof (cases "check_task_body ev cfg w")
    case None
    then show ?thesis by simp
  next
    case (Some p)
    obtain r w2 where p: "p = (r, w2)" by (cases p)
    show ?thesis
    proof (cases r)
      case (Inl e2)
      with Some p check_task_body_no_raise [of ev cfg w e2 w2] show ?thesis by simp
    next
      case (Inr u)
      with Some p Suc.IH [of w2] show ?thesis by simp
    qed
  qed
qed

lemma check_task_production_loops:
  "APP_ENV cfg \<noteq> TEST \<Longrightarrow> check_task n ev cfg w \<noteq> Returned r"
proof (induction n arbitrary: w)
  case 0
  show ?case by simp
next
  case (Suc n)
  show ?case
  proof (cases "check_task_body ev cfg w")
    case None
    then show ?thesis by simp
  next
    case (Some p)
    obtain r2 w2 where p: "p = (r2, w2)" by (cases p)
    show ?thesis
    proof (cases r2)
      case (Inl e2)
      with Some p check_task_body_no_raise [of ev cfg w e2 w2] show ?thesis by simp
    next
      case (Inr u)
      with Some p Suc.IH [OF Suc.prems, of w2] Suc.prems show ?thesis by simp
    qed
  qed
qed

section \<open>The claims\<close>

lemmas demo_defs = test_config_def rate_config_def url_net_def json_response_def text_response_def echo_answer_def
  empty_origin_answer_def frozen_clock_def ip0_def hello_rule_def bye_rule_def down_rule_def
  off_rule_def clash_rule_def NORMAL_CHECK_URL_def HTTPS_CHECK_URL_def to_http_def

lemmas store_defs = demo_world_def five_pool_def Redis_share_def llen_def zcount_def
  zrangebyscore_def push_to_pool_def rpush_def Logger_info_def

lemmas loop_defs = check_task_body_def start_check_def blpop_def Redis_share_def Logger_debug_def
  Logger_info_def Logger_error_def asyncio_sleep_def handle_task_exception_def test_env_def
  store_net_def parse_endpoint_def ledger_noop_def down_world_def demo_world_def asserted_world_def

subsection \<open>C1: one pass of the pipeline\<close>

text \<open>
  Claim C1.  For every endpoint, every network and every rule list (a list of
  \<^verbatim>\<open>RuleData\<close>), one pass of \<^verbatim>\<open>http_check\<close>, \<^verbatim>\<open>https_check\<close> and \<^verbatim>\<open>rules_check\<close> returns
  normally.  Afterwards \<^verbatim>\<open>http\<close> and \<^verbatim>\<open>https\<close> are booleans, the success of the
  respective echo, and \<^verbatim>\<open>rules\<close> is the dict written with one boolean per enabled rule,
  in order, each the success of that rule's own request; every enabled rule has a
  boolean under its key.  A request that raised and a body that could not be read are
  not a success: they give \<open>False\<close>.
\<close>

theorem check_stages_outcomes:
  assumes "list_all is_RuleData (RULES cfg)"
  shows "\<exists>ip1 w1. check_stages nt cfg ip w = (Inr ip1, w1) \<and>
           http ip1 = Some (origin_truthy (fst (session_get nt NORMAL_CHECK_URL (to_http ip) w))) \<and>
           https ip1 = Some (origin_truthy (fst (session_get nt HTTPS_CHECK_URL (to_http ip)
                          (snd (session_get nt NORMAL_CHECK_URL (to_http ip) w))))) \<and>
           rules ip1 = fold (\<lambda>(k, b). AList.update k b)
                         (rule_outcomes nt ip (RULES cfg)
                            (snd (session_get nt HTTPS_CHECK_URL (to_http ip)
                               (snd (session_get nt NORMAL_CHECK_URL (to_http ip) w))))) [] \<and>
           (\<forall>rule. Rule rule \<in> set (RULES cfg) \<and> enable rule \<longrightarrow>
                (\<exists>b. map_of (rules ip1) (key rule) = Some b)) \<and>
           (\<forall>e. \<not> origin_truthy (Inl e)) \<and>
           (\<forall>resp e. resp_json resp = Inl e \<longrightarrow> \<not> origin_truthy (Inr resp)) \<and>
           (\<forall>rule e. \<not> rule_passes rule (Inl e)) \<and>
           (\<forall>rule resp e. resp_text resp = Inl e \<longrightarrow> \<not> rule_passes rule (Inr resp))"
proof -
  define w1 where "w1 = snd (session_get nt NORMAL_CHECK_URL (to_http ip) w)"
  define ip1 where "ip1 = fst (http_check nt ip w)"
  define w2 where "w2 = snd (session_get nt HTTPS_CHECK_URL (to_http ip) w1)"
  define ip2 where "ip2 = fst (https_check nt ip1 w1)"
  have h1: "http_check nt ip w = (ip1, w1)"
    by (simp add: ip1_def w1_def http_check_eq)
  have tp: "to_http ip1 = to_http ip"
    by (simp add: ip1_def http_check_eq)
  have h2: "https_check nt ip1 w1 = (ip2, w2)"
    by (simp add: ip2_def w2_def https_check_eq tp)
  have tp2: "to_http ip2 = to_http ip"
    by (simp add: ip2_def https_check_eq tp)
  obtain acc w3 where loop: "rules_loop nt ip2 (RULES cfg) [] w2 = (Inr acc, w3)"
    using rules_loop_total [OF assms, where nt=nt and ip=ip2 and acc="[]" and w=w2] by blast
  have res: "check_stages nt cfg ip w = (Inr (ip2\<lparr>rules := acc\<rparr>), w3)"
    by (simp add: check_stages_def h1 h2 rules_check_def loop)
  have a: "http ip2 = Some (origin_truthy (fst (session_get nt NORMAL_CHECK_URL (to_http ip) w)))"
    by (simp add: ip2_def https_check_eq ip1_def http_check_eq)
  have b: "https ip2 = Some (origin_truthy (fst (session_get nt HTTPS_CHECK_URL (to_http ip) w1)))"
    by (simp add: ip2_def https_check_eq tp)
  have acc: "acc = fold (\<lambda>(k, b). AList.update k b) (rule_outcomes nt ip (RULES cfg) w2) []"
    using rules_loop_outcomes [OF assms, of nt ip2 "[]" w2] loop
    by (simp add: rule_outcomes_cong [OF tp2])
  have keys: "fst ` set acc = {key rule | rule. Rule rule \<in> set (RULES cfg) \<and> enable rule}"
    using rules_loop_keys [OF loop] by simp
  have c: "\<exists>b. map_of acc (key rule) = Some b" if "Rule rule \<in> set (RULES cfg) \<and> enable rule" for rule
  proof -
    from that keys have "key rule \<in> fst ` set acc" by blast
    then show ?thesis by (metis domIff dom_map_of_conv_image_fst not_Some_eq)
  qed
  have d: "(\<forall>e. \<not> origin_truthy (Inl e)) \<and>
           (\<forall>resp e. resp_json resp = Inl e \<longrightarrow> \<not> origin_truthy (Inr resp)) \<and>
           (\<forall>rule e. \<not> rule_passes rule (Inl e)) \<and>
           (\<forall>rule resp e. resp_text resp = Inl e \<longrightarrow> \<not> rule_passes rule (Inr resp))"
    by (simp add: origin_truthy_def rule_passes_def)
  have "check_stages nt cfg ip w = (Inr (ip2\<lparr>rules := acc\<rparr>), w3) \<and>
        http (ip2\<lparr>rules := acc\<rparr>) = Some (origin_truthy (fst (session_get nt NORMAL_CHECK_URL (to_http ip) w))) \<and>
        https (ip2\<lparr>rules := acc\<rparr>) = Some (origin_truthy (fst (session_get nt HTTPS_CHECK_URL (to_http ip) w1))) \<and>
        rules (ip2\<lparr>rules := acc\<rparr>) = fold (\<lambda>(k, b). AList.update k b) (rule_outcomes nt ip (RULES cfg) w2) [] \<and>
        (\<forall>rule. Rule rule \<in> set (RULES cfg) \<and> enable rule \<longrightarrow>
                (\<exists>b. map_of (rules (ip2\<lparr>rules := acc\<rparr>)) (key rule) = Some b))"
    using res a b acc c by simp
  then show ?thesis using d unfolding w2_def w1_def by blast
qed

theorem check_stages_outcomes_witness:
  "list_all is_RuleData (RULES (test_config [Rule down_rule, Rule hello_rule, Rule bye_rule, Rule off_rule])) \<and>
   check_stages (url_net (echo_answer True False) int)
      (test_config [Rule down_rule, Rule hello_rule, Rule bye_rule, Rule off_rule]) ip0 0 =
     (Inr \<lparr>endpoint = ''10.0.0.1:8080'', http = Some True, https = Some False,
           rules = [(''down'', False), (''hello'', True), (''bye'', False)],
           delay = Some (1 / 1000000)\<rparr>, 5)"
  using check_stages_outcomes [of "test_config [Rule down_rule, Rule hello_rule, Rule bye_rule, Rule off_rule]"
      "url_net (echo_answer True False) int" ip0 0]
  by (simp add: check_stages_def http_check_eq https_check_eq rules_check_def rules_loop_step
       rule_passes_def origin_truthy_def demo_defs total_seconds_def sublist_Cons_right
       del: rules_loop.simps(3))

text \<open>
  An element of \<^verbatim>\<open>Config.RULES\<close> that is not a \<^verbatim>\<open>RuleData\<close> meets the assertion of line 124,
  which stands outside the \<^verbatim>\<open>try\<close>.
\<close>

lemma check_stages_assertion_example:
  "check_stages (url_net (echo_answer True True) int) (test_config [NotRuleData]) ip0 0 =
     (Inl (AssertionError ''Error rule format''), 2)"
  by (simp add: check_stages_def http_check_eq https_check_eq rules_check_def demo_defs)

subsection \<open>C2: the banded rescan\<close>

text \<open>
  Claim C2.  When the store is up, the backpressure test of line 159 is false (computed
  as Python does, with the float product) and \<^verbatim>\<open>INC_SCORE\<close> is positive,
  \<^verbatim>\<open>resend_check_ip\<close> returns normally and appends to the check pool, band
  after band for \<open>k = 0, ..., n - 1\<close>, the members whose score lies in
  \<open>[MIN + 1 + k * INC, MIN + (k + 1) * INC]\<close>; the IP pool is unchanged.
  Each band ends below the start of every later one, so the bands are disjoint and
  visited in increasing order.  Every member of the IP pool (a sorted set: each member
  once) whose score is above \<^verbatim>\<open>MIN_SCORE\<close> and at most \<^verbatim>\<open>MAX_SCORE\<close> lies in exactly
  one of these bands and is pushed exactly once.
\<close>

theorem resend_check_ip_pushes_once:
  assumes "redis_fault w = None"
    and "backpressure cfg w = Inr False"
    and "0 < DEFAULT_INC_SCORE cfg"
    and "distinct (map fst (ip_pool w))"
  shows "\<exists>n pushed.
           py_range (DEFAULT_MINI_SCORE cfg + 1) (DEFAULT_MAX_SCORE cfg + DEFAULT_INC_SCORE cfg)
               (DEFAULT_INC_SCORE cfg) =
             Inr (map (\<lambda>k. DEFAULT_MINI_SCORE cfg + 1 + int k * DEFAULT_INC_SCORE cfg) [0..<n]) \<and>
           pushed = concat (map (\<lambda>k. zrangebyscore (ip_pool w)
                                  (DEFAULT_MINI_SCORE cfg + 1 + int k * DEFAULT_INC_SCORE cfg)
                                  (DEFAULT_MINI_SCORE cfg + (int k + 1) * DEFAULT_INC_SCORE cfg)) [0..<n]) \<and>
           fst (resend_check_ip cfg w) = Inr () \<and>
           check_pool (snd (resend_check_ip cfg w)) = check_pool w @ pushed \<and>
           ip_pool (snd (resend_check_ip cfg w)) = ip_pool w \<and>
           (\<forall>k k'. k < k' \<longrightarrow>
              DEFAULT_MINI_SCORE cfg + (int k + 1) * DEFAULT_INC_SCORE cfg <
              DEFAULT_MINI_SCORE cfg + 1 + int k' * DEFAULT_INC_SCORE cfg) \<and>
           (\<forall>e sc. (e, sc) \<in> set (ip_pool w) \<and> DEFAULT_MINI_SCORE cfg < sc \<and> sc \<le> DEFAULT_MAX_SCORE cfg \<longrightarrow>
              count_list pushed e = 1 \<and>
              (\<exists>!k. k < n \<and> DEFAULT_MINI_SCORE cfg + 1 + int k * DEFAULT_INC_SCORE cfg \<le> sc \<and>
                     sc \<le> DEFAULT_MINI_SCORE cfg + (int k + 1) * DEFAULT_INC_SCORE cfg))"
proof -
  let ?lo = "DEFAULT_MINI_SCORE cfg"
  let ?hi = "DEFAULT_MAX_SCORE cfg"
  let ?inc = "DEFAULT_INC_SCORE cfg"
  let ?band = "\<lambda>k. zrangebyscore (ip_pool w) (?lo + 1 + int k * ?inc) (?lo + (int k + 1) * ?inc)"
  define n where "n = nat ((?hi + ?inc - (?lo + 1) + ?inc - 1) div ?inc)"
  define pushed where "pushed = concat (map ?band [0..<n])"
  note inc = assms(3)
  have range: "py_range (?lo + 1) (?hi + ?inc) ?inc = Inr (map (\<lambda>k. ?lo + 1 + int k * ?inc) [0..<n])"
    using inc by (simp add: py_range_def n_def)
  have unf: "resend_check_ip cfg w = resend_bands cfg (map (\<lambda>k. ?lo + 1 + int k * ?inc) [0..<n]) w"
    unfolding n_def by (rule resend_check_ip_open [OF assms(1,2,3)])
  have band_eq: "zrangebyscore (ip_pool w) (?lo + 1 + int k * ?inc) (?lo + 1 + int k * ?inc + ?inc - 1) = ?band k" for k
    by (simp add: algebra_simps)
  have map_eq: "map (\<lambda>i. zrangebyscore (ip_pool w) i (i + ?inc - 1)) (map (\<lambda>k. ?lo + 1 + int k * ?inc) [0..<n])
                  = map ?band [0..<n]"
    unfolding map_map comp_def band_eq by (rule refl)
  have ok: "fst (resend_check_ip cfg w) = Inr ()"
    unfolding unf using resend_bands_ok [OF assms(1)] by blast
  have "check_pool (snd (resend_check_ip cfg w)) =
          check_pool w @ concat (map (\<lambda>i. zrangebyscore (ip_pool w) i (i + ?inc - 1))
                                   (map (\<lambda>k. ?lo + 1 + int k * ?inc) [0..<n]))"
    unfolding unf using resend_bands_ok [OF assms(1)] by blast
  then have pool: "check_pool (snd (resend_check_ip cfg w)) = check_pool w @ pushed"
    unfolding map_eq pushed_def .
  have frame: "ip_pool (snd (resend_check_ip cfg w)) = ip_pool w"
    unfolding unf using resend_bands_frame by blast
  have each: "count_list pushed e = 1 \<and>
              (\<exists>!k. k < n \<and> ?lo + 1 + int k * ?inc \<le> sc \<and> sc \<le> ?lo + (int k + 1) * ?inc)"
    if mem: "(e, sc) \<in> set (ip_pool w)" and sc: "?lo < sc" "sc \<le> ?hi" for e sc
  proof -
    define k0 where "k0 = nat ((sc - ?lo - 1) div ?inc)"
    have k0: "k0 < n"
      unfolding k0_def n_def using band_index_bound [OF inc sc] .
    have d: "0 \<le> sc - ?lo - 1" using sc by simp
    have in_band: "(?lo + 1 + int k * ?inc \<le> sc \<and> sc \<le> ?lo + (int k + 1) * ?inc) = (k = k0)" for k
    proof -
      have "(?lo + 1 + int k * ?inc \<le> sc \<and> sc \<le> ?lo + (int k + 1) * ?inc) =
            (int k * ?inc \<le> sc - ?lo - 1 \<and> sc - ?lo - 1 \<le> int k * ?inc + ?inc - 1)"
        by (auto simp: algebra_simps)
      also have "\<dots> = (k = k0)"
        unfolding k0_def by (rule band_unique [OF inc d])
      finally show ?thesis .
    qed
    have cnt: "count_list (?band k) e = (if k = k0 then 1 else 0)" for k
      using count_zrangebyscore [OF assms(4) mem, of "?lo + 1 + int k * ?inc" "?lo + (int k + 1) * ?inc"]
      unfolding in_band .
    have "count_list pushed e = sum_list (map (\<lambda>k. count_list (?band k) e) [0..<n])"
      unfolding pushed_def count_list_concat map_map comp_def by (rule refl)
    also have "\<dots> = sum_list (map (\<lambda>k. if k = k0 then (1::nat) else 0) [0..<n])"
      unfolding cnt by (rule refl)
    also have "\<dots> = 1"
      using k0 by (simp add: sum_list_indicator_upt)
    finally have one: "count_list pushed e = 1" .
    have "\<exists>!k. k < n \<and> ?lo + 1 + int k * ?inc \<le> sc \<and> sc \<le> ?lo + (int k + 1) * ?inc"
      unfolding in_band using k0 by blast
    with one show ?thesis by (rule conjI)
  qed
  have each_all: "\<forall>e sc. (e, sc) \<in> set (ip_pool w) \<and> ?lo < sc \<and> sc \<le> ?hi \<longrightarrow>
              count_list pushed e = 1 \<and>
              (\<exists>!k. k < n \<and> ?lo + 1 + int k * ?inc \<le> sc \<and> sc \<le> ?lo + (int k + 1) * ?inc)"
    using each by blast
  have pushed_eq: "pushed = concat (map ?band [0..<n])"
    by (rule pushed_def)
  have order: "\<forall>k k'. k < k' \<longrightarrow> ?lo + (int k + 1) * ?inc < ?lo + 1 + int k' * ?inc"
  proof (intro allI impI)
    fix k k' :: nat
    assume "k < k'"
    then have "int k + 1 \<le> int k'" by simp
    then have "(int k + 1) * ?inc \<le> int k' * ?inc"
      using inc by (intro mult_right_mono) simp_all
    then show "?lo + (int k + 1) * ?inc < ?lo + 1 + int k' * ?inc" by simp
  qed
  show ?thesis
    apply (rule exI [of _ n])
    apply (rule exI [of _ pushed])
    apply (intro conjI)
          apply (rule range)
         apply (rule pushed_eq)
        apply (rule ok)
       apply (rule pool)
      apply (rule frame)
     apply (rule order)
    apply (rule each_all)
    done
qed

theorem resend_check_ip_pushes_once_witness:
  "redis_fault (demo_world [''x''] five_pool) = None \<and>
   backpressure (test_config []) (demo_world [''x''] five_pool) = Inr False \<and>
   0 < DEFAULT_INC_SCORE (test_config []) \<and>
   distinct (map fst (ip_pool (demo_world [''x''] five_pool))) \<and>
   fst (resend_check_ip (test_config []) (demo_world [''x''] five_pool)) = Inr () \<and>
   check_pool (snd (resend_check_ip (test_config []) (demo_world [''x''] five_pool))) =
     [''x'', ''a'', ''b'', ''c''] \<and>
   py_range (DEFAULT_MINI_SCORE (test_config []) + 1)
      (DEFAULT_MAX_SCORE (test_config []) + DEFAULT_INC_SCORE (test_config []))
      (DEFAULT_INC_SCORE (test_config [])) =
     Inr [1, 11, 21, 31, 41, 51, 61, 71, 81, 91, 101]"
proof -
  have h1: "redis_fault (demo_world [''x''] five_pool) = None"
    by (simp add: demo_world_def)
  have h2: "backpressure (test_config []) (demo_world [''x''] five_pool) = Inr False"
    by (simp add: backpressure_rate_one demo_world_def five_pool_def test_config_def rate_config_def)
  have h3: "0 < DEFAULT_INC_SCORE (test_config [])"
    by (simp add: test_config_def rate_config_def)
  have h4: "distinct (map fst (ip_pool (demo_world [''x''] five_pool)))"
    by (simp add: demo_world_def five_pool_def)
  have r: "py_range (DEFAULT_MINI_SCORE (test_config []) + 1)
      (DEFAULT_MAX_SCORE (test_config []) + DEFAULT_INC_SCORE (test_config []))
      (DEFAULT_INC_SCORE (test_config [])) =
     Inr [1, 11, 21, 31, 41, 51, 61, 71, 81, 91, 101]"
    by (simp add: py_range_def test_config_def rate_config_def upt_rec)
  have c: "fst (resend_check_ip (test_config []) (demo_world [''x''] five_pool)) = Inr () \<and>
     check_pool (snd (resend_check_ip (test_config []) (demo_world [''x''] five_pool))) =
     [''x'', ''a'', ''b'', ''c'']"
    unfolding resend_check_ip_def r h2
    by (simp add: test_config_def rate_config_def store_defs Let_def)
  note general = resend_check_ip_pushes_once [OF h1 h2 h3 h4]
  show ?thesis
    using general
    apply -
    apply (intro conjI)
          apply (rule h1)
         apply (rule h2)
        apply (rule h3)
       apply (rule h4)
      apply (rule c [THEN conjunct1])
     apply (rule c [THEN conjunct2])
    apply (rule r)
    done
qed

subsection \<open>C3: the eviction sweep\<close>

text \<open>
  Claim C3.  With the store up, one run of \<^verbatim>\<open>remove_low_score_ip\<close> returns normally and
  leaves in the IP pool exactly the entries whose score is not in \<open>[-100, 0]\<close>, in their
  order; the check pool is untouched.  From the scores -50, 0, 1, 100 it keeps 1 and 100.
\<close>

theorem remove_low_score_ip_removes:
  assumes "redis_fault w = None" and "distinct (map fst (ip_pool w))"
  shows "fst (remove_low_score_ip w) = Inr () \<and>
         ip_pool (snd (remove_low_score_ip w)) =
           filter (\<lambda>(m, s). \<not> (- 100 \<le> s \<and> s \<le> 0)) (ip_pool w) \<and>
         check_pool (snd (remove_low_score_ip w)) = check_pool w"
proof (cases "zrangebyscore (ip_pool w) (- 100) 0 = []")
  case True
  then have "\<forall>x \<in> set (ip_pool w). case x of (m, s) \<Rightarrow> \<not> (- 100 \<le> s \<and> s \<le> 0)"
    using set_zrangebyscore [of "ip_pool w" "- 100" 0] by auto
  then have "filter (\<lambda>(m, s). \<not> (- 100 \<le> s \<and> s \<le> 0)) (ip_pool w) = ip_pool w"
    by (simp add: filter_id_conv)
  with True assms(1) show ?thesis
    by (simp add: remove_low_score_ip_def Redis_share_def Let_def)
next
  case False
  with assms(1) show ?thesis
    by (simp add: remove_low_score_ip_def remove_ip_def Redis_share_def Let_def Logger_info_def
        zrange_filter_eq [OF assms(2)])
qed

theorem remove_low_score_ip_removes_witness:
  "redis_fault (demo_world [] four_pool) = None \<and>
   distinct (map fst (ip_pool (demo_world [] four_pool))) \<and>
   fst (remove_low_score_ip (demo_world [] four_pool)) = Inr () \<and>
   ip_pool (snd (remove_low_score_ip (demo_world [] four_pool))) = [(''c'', 1), (''d'', 100)]"
  using remove_low_score_ip_removes [of "demo_world [] four_pool"]
  by (simp add: demo_world_def four_pool_def)

subsection \<open>C4: backpressure\<close>

text \<open>
  Claim C4, as amended.  When the length of the check pool is at least the size of the
  IP pool times the exact value of the float \<^verbatim>\<open>RE_PUSH_TO_CHECK_POOL_RATE\<close> (both
  collections within what Redis holds, below \<open>2 ^ 53\<close>), the test of line 159 is true,
  \<^verbatim>\<open>resend_check_ip\<close> changes nothing at all, and a whole pass of the rebalancer's loop
  leaves the check pool and the IP pool as they were.  With lengths 10 and 10 and the
  ratio 1.0 nothing is pushed.
\<close>

theorem resend_check_ip_backpressure:
  assumes "real (length (ip_pool w)) * float_val (RE_PUSH_TO_CHECK_POOL_RATE cfg) \<le> real (length (check_pool w))"
    and "length (ip_pool w) < 2 ^ 53"
    and "length (check_pool w) < 2 ^ 53"
  shows "backpressure cfg w = Inr True \<and>
         resend_check_ip cfg w = (case redis_fault w of None \<Rightarrow> Inr () | Some e \<Rightarrow> Inl e, w) \<and>
         check_pool (snd (recheck_ip_task_body cfg w)) = check_pool w \<and>
         ip_pool (snd (recheck_ip_task_body cfg w)) = ip_pool w"
proof -
  let ?w0 = "Logger_debug ''[check] recheck ip task loop'' w"
  let ?w1 = "?w0\<lparr>last_time := (last_time ?w0)(''recheck_ip'' := Some (clock ?w0))\<rparr>"
  have full: "backpressure cfg w = Inr True"
    by (rule backpressure_closed [OF assms])
  have "backpressure cfg ?w1 = backpressure cfg w"
    by (rule backpressure_pools) (simp_all add: Logger_debug_def)
  then have r1: "snd (resend_check_ip cfg ?w1) = ?w1"
    using full by (simp add: resend_check_ip_closed)
  have "check_pool (snd (recheck_ip_try cfg ?w0)) = check_pool w \<and>
        ip_pool (snd (recheck_ip_try cfg ?w0)) = ip_pool w"
    unfolding recheck_ip_try_cases
    by (simp add: r1 split: option.splits) (simp add: Logger_debug_def)
  then show ?thesis
    using full resend_check_ip_closed [OF full] recheck_ip_task_body_store [of cfg w] by simp
qed

theorem resend_check_ip_backpressure_witness:
  "length (check_pool (demo_world ten ten_pool)) = 10 \<and>
   length (ip_pool (demo_world ten ten_pool)) = 10 \<and>
   float_val (RE_PUSH_TO_CHECK_POOL_RATE (test_config [])) = 1 \<and>
   real (length (ip_pool (demo_world ten ten_pool))) * float_val (RE_PUSH_TO_CHECK_POOL_RATE (test_config []))
     \<le> real (length (check_pool (demo_world ten ten_pool))) \<and>
   resend_check_ip (test_config []) (demo_world ten ten_pool) =
     (Inr (), demo_world ten ten_pool)"
  using resend_check_ip_backpressure [of "demo_world ten ten_pool" "test_config []"]
  by (simp add: demo_world_def ten_def ten_pool_def test_config_def rate_config_def)

text \<open>
  The claim as stated, with the ratio as it is written in the configuration, fails: for
  the ratio 0.28, a pool of 25 and a queue of 7 the queue length equals the product, yet
  the float 0.28 lies above 0.28, Python's product is above 7, and all 25 members are
  pushed.
\<close>

theorem resend_check_ip_backpressure_counterexample:
  "real (length (ip_pool (demo_world seven pool25))) * (28 / 100)
     \<le> real (length (check_pool (demo_world seven pool25))) \<and>
   round_to_double (28 / 100) = float_val (dyadic 1261007895663739 (- 52)) \<and>
   backpressure (rate_config (dyadic 1261007895663739 (- 52))) (demo_world seven pool25) = Inr False \<and>
   check_pool (snd (resend_check_ip (rate_config (dyadic 1261007895663739 (- 52)))
                      (demo_world seven pool25))) =
     seven @ map fst pool25"
proof -
  let ?cfg = "rate_config (dyadic 1261007895663739 (- 52))"
  let ?w = "demo_world seven pool25"
  have a: "real (length (ip_pool ?w)) * (28 / 100) \<le> real (length (check_pool ?w))"
    by (simp add: demo_world_def seven_def pool25_def)
  have bp: "backpressure ?cfg ?w = Inr False"
    by (rule backpressure_028) (simp_all add: rate_config_def demo_world_def seven_def pool25_def)
  have r: "py_range (DEFAULT_MINI_SCORE ?cfg + 1) (DEFAULT_MAX_SCORE ?cfg + DEFAULT_INC_SCORE ?cfg)
      (DEFAULT_INC_SCORE ?cfg) = Inr [1, 11, 21, 31, 41, 51, 61, 71, 81, 91, 101]"
    by (simp add: py_range_def rate_config_def upt_rec)
  have z: "zrangebyscore pool25 lo hi = (if lo \<le> 50 \<and> 50 \<le> hi then map fst pool25 else [])" for lo hi
    by (simp add: zrangebyscore_def pool25_def)
  have ne: "pool25 \<noteq> []"
    by (simp add: pool25_def)
  have p: "check_pool (snd (resend_check_ip ?cfg ?w)) = seven @ map fst pool25"
    unfolding resend_check_ip_def r bp
    by (simp add: ne demo_world_def Redis_share_def rate_config_def z push_to_pool_def rpush_def
        Logger_info_def Let_def)
  from a round_to_double_028 bp p show ?thesis by simp
qed

subsection \<open>C5: run deduplication\<close>

text \<open>
  Claim C5, as amended.  An invocation that finds no run recorded within the interval
  stamps the current time and goes on to \<^verbatim>\<open>resend_check_ip\<close>.  A second invocation
  that sees this stamp less than one interval after it changes nothing in the store:
  its \<^verbatim>\<open>try\<close> block returns the state as it found it, and after the whole pass the
  check pool, the IP pool and the timestamps are the same.
\<close>

theorem recheck_ip_task_dedup:
  assumes "redis_fault w = None"
    and "last_time_check ''recheck_ip'' (DEFAULT_CHECK_INTERVAL cfg) w = Inr False"
    and "last_time w2 ''recheck_ip'' = last_time (snd (recheck_ip_task_body cfg w)) ''recheck_ip''"
    and "clock w \<le> clock w2"
    and "clock w2 < clock w + DEFAULT_CHECK_INTERVAL cfg"
  shows "recheck_ip_try cfg w =
           resend_check_ip cfg (w\<lparr>last_time := (last_time w)(''recheck_ip'' := Some (clock w))\<rparr>) \<and>
         last_time (snd (recheck_ip_task_body cfg w)) ''recheck_ip'' = Some (clock w) \<and>
         recheck_ip_try cfg w2 = (case redis_fault w2 of None \<Rightarrow> Inr () | Some e \<Rightarrow> Inl e, w2) \<and>
         check_pool (snd (recheck_ip_task_body cfg w2)) = check_pool w2 \<and>
         ip_pool (snd (recheck_ip_task_body cfg w2)) = ip_pool w2 \<and>
         last_time (snd (recheck_ip_task_body cfg w2)) = last_time w2"
proof -
  let ?dbg = "Logger_debug ''[check] recheck ip task loop''"
  let ?stamp = "\<lambda>v. v\<lparr>last_time := (last_time v)(''recheck_ip'' := Some (clock v))\<rparr>"
  have guard: "case last_time w ''recheck_ip'' of None \<Rightarrow> True
               | Some t \<Rightarrow> \<not> clock w - t < DEFAULT_CHECK_INTERVAL cfg"
    using assms(1,2) by (simp add: last_time_check_def Redis_share_def split: option.splits)
  have first: "recheck_ip_try cfg v = resend_check_ip cfg (?stamp v)"
    if "redis_fault v = None" "last_time v = last_time w" "clock v = clock w" for v
    unfolding recheck_ip_try_cases using that guard by (simp split: option.splits)
  have a: "recheck_ip_try cfg w = resend_check_ip cfg (?stamp w)"
    by (rule first) (simp_all add: assms(1))
  have "recheck_ip_try cfg (?dbg w) = resend_check_ip cfg (?stamp (?dbg w))"
    by (rule first) (simp_all add: assms(1) Logger_debug_def)
  then have "last_time (snd (recheck_ip_try cfg (?dbg w))) ''recheck_ip'' = Some (clock w)"
    using resend_check_ip_frame [of cfg "?stamp (?dbg w)"] by (simp add: Logger_debug_def)
  then have b: "last_time (snd (recheck_ip_task_body cfg w)) ''recheck_ip'' = Some (clock w)"
    using recheck_ip_task_body_store [of cfg w] by simp
  have seen: "last_time w2 ''recheck_ip'' = Some (clock w)"
    using assms(3) b by simp
  have second: "recheck_ip_try cfg v = (case redis_fault v of None \<Rightarrow> Inr () | Some e \<Rightarrow> Inl e, v)"
    if "last_time v = last_time w2" "clock v = clock w2" for v
    unfolding recheck_ip_try_cases using that seen assms(5) by (simp split: option.splits)
  have c: "recheck_ip_try cfg w2 = (case redis_fault w2 of None \<Rightarrow> Inr () | Some e \<Rightarrow> Inl e, w2)"
    by (rule second) simp_all
  have "snd (recheck_ip_try cfg (?dbg w2)) = ?dbg w2"
    using second [of "?dbg w2"] by (simp add: Logger_debug_def)
  then have d: "check_pool (snd (recheck_ip_task_body cfg w2)) = check_pool w2 \<and>
         ip_pool (snd (recheck_ip_task_body cfg w2)) = ip_pool w2 \<and>
         last_time (snd (recheck_ip_task_body cfg w2)) = last_time w2"
    using recheck_ip_task_body_store [of cfg w2] by (simp add: Logger_debug_def)
  from a b c d show ?thesis by simp
qed

theorem recheck_ip_task_dedup_witness:
  "redis_fault (demo_world [''x''] five_pool) = None \<and>
   last_time_check ''recheck_ip'' (DEFAULT_CHECK_INTERVAL (test_config [])) (demo_world [''x''] five_pool)
     = Inr False \<and>
   clock (demo_world [''x''] five_pool) \<le> 1030 \<and>
   1030 < clock (demo_world [''x''] five_pool) + DEFAULT_CHECK_INTERVAL (test_config []) \<and>
   check_pool (snd (recheck_ip_task_body (test_config []) (demo_world [''x''] five_pool))) =
     [''x'', ''a'', ''b'', ''c''] \<and>
   last_time (snd (recheck_ip_task_body (test_config []) (demo_world [''x''] five_pool))) ''recheck_ip''
     = Some 1000 \<and>
   check_pool (snd (recheck_ip_task_body (test_config [])
       ((snd (recheck_ip_task_body (test_config []) (demo_world [''x''] five_pool)))\<lparr>clock := 1030\<rparr>))) =
     [''x'', ''a'', ''b'', ''c'']"
proof -
  let ?w = "demo_world [''x''] five_pool"
  let ?cfg = "test_config []"
  let ?w1 = "snd (recheck_ip_task_body ?cfg ?w)"
  have h1: "redis_fault ?w = None"
    by (simp add: demo_world_def)
  have h2: "last_time_check ''recheck_ip'' (DEFAULT_CHECK_INTERVAL ?cfg) ?w = Inr False"
    by (simp add: last_time_check_def Redis_share_def demo_world_def)
  have h3: "last_time (?w1\<lparr>clock := 1030\<rparr>) ''recheck_ip'' = last_time ?w1 ''recheck_ip''"
    by simp
  have h4: "clock ?w \<le> clock (?w1\<lparr>clock := 1030\<rparr>)"
    by (simp add: demo_world_def)
  have h5: "clock (?w1\<lparr>clock := 1030\<rparr>) < clock ?w + DEFAULT_CHECK_INTERVAL ?cfg"
    by (simp add: demo_world_def test_config_def rate_config_def)
  have r: "py_range (DEFAULT_MINI_SCORE ?cfg + 1) (DEFAULT_MAX_SCORE ?cfg + DEFAULT_INC_SCORE ?cfg)
      (DEFAULT_INC_SCORE ?cfg) = Inr [1, 11, 21, 31, 41, 51, 61, 71, 81, 91, 101]"
    by (simp add: py_range_def test_config_def rate_config_def upt_rec)
  have bp: "backpressure ?cfg v = Inr False"
    if "check_pool v = [''x'']" "ip_pool v = five_pool" for v
    using that by (simp add: backpressure_rate_one five_pool_def test_config_def rate_config_def)
  have first: "check_pool ?w1 = [''x'', ''a'', ''b'', ''c'']"
    unfolding recheck_ip_task_body_def recheck_ip_try_def resend_check_ip_def r
    by (simp add: bp last_time_check_def save_last_time_def Logger_debug_def demo_world_def
          Redis_share_def)
       (simp add: test_config_def rate_config_def five_pool_def zrangebyscore_def push_to_pool_def
          Redis_share_def rpush_def Logger_info_def Let_def)
  note general = recheck_ip_task_dedup [OF h1 h2 h3 h4 h5]
  from general have stamped: "last_time ?w1 ''recheck_ip'' = Some 1000"
    by (simp add: demo_world_def)
  from general have second: "check_pool (snd (recheck_ip_task_body ?cfg (?w1\<lparr>clock := 1030\<rparr>))) =
      check_pool ?w1"
    by simp
  from h1 h2 h4 h5 first stamped second show ?thesis
    by simp
qed

text \<open>
  The claim as stated, for every pair of invocations within one interval of each other,
  fails when the first of the two was itself skipped: with a run recorded at time 0 and
  an interval of 60, the invocation at 50 does nothing, and the one at 70, only 20
  later, stamps again and pushes.
\<close>

theorem recheck_ip_task_counterexample:
  "last_time (stamped_world 50) ''recheck_ip'' = Some 0 \<and>
   clock (stamped_world 50) = 50 \<and>
   DEFAULT_CHECK_INTERVAL (test_config []) = 60 \<and>
   check_pool (snd (recheck_ip_task_body (test_config []) (stamped_world 50))) = [''x''] \<and>
   last_time (snd (recheck_ip_task_body (test_config []) (stamped_world 50))) ''recheck_ip'' = Some 0 \<and>
   (70 :: int) - 50 < DEFAULT_CHECK_INTERVAL (test_config []) \<and>
   check_pool (snd (recheck_ip_task_body (test_config [])
       ((snd (recheck_ip_task_body (test_config []) (stamped_world 50)))\<lparr>clock := 70\<rparr>))) =
     [''x'', ''a'', ''b'', ''c''] \<and>
   last_time (snd (recheck_ip_task_body (test_config [])
       ((snd (recheck_ip_task_body (test_config []) (stamped_world 50)))\<lparr>clock := 70\<rparr>))) ''recheck_ip'' =
     Some 70"
proof -
  let ?cfg = "test_config []"
  let ?dbg = "Logger_debug ''[check] recheck ip task loop''"
  have i: "DEFAULT_CHECK_INTERVAL ?cfg = 60"
    by (simp add: test_config_def rate_config_def)
  have s: "last_time (stamped_world 50) ''recheck_ip'' = Some 0" "clock (stamped_world 50) = 50"
    "redis_fault (stamped_world 50) = None" "check_pool (stamped_world 50) = [''x'']"
    "ip_pool (stamped_world 50) = five_pool"
    by (simp_all add: stamped_world_def demo_world_def)
  have t1: "recheck_ip_try ?cfg (?dbg (stamped_world 50)) = (Inr (), ?dbg (stamped_world 50))"
    unfolding recheck_ip_try_cases by (simp add: Logger_debug_def s i)
  have w1: "snd (recheck_ip_task_body ?cfg (stamped_world 50)) = ?dbg (stamped_world 50)"
    by (simp add: recheck_ip_task_body_def t1)
  let ?w2 = "(?dbg (stamped_world 50))\<lparr>clock := 70\<rparr>"
  let ?w3 = "(?dbg ?w2)\<lparr>last_time := (last_time (?dbg ?w2))(''recheck_ip'' := Some (clock (?dbg ?w2)))\<rparr>"
  have r: "py_range (DEFAULT_MINI_SCORE ?cfg + 1) (DEFAULT_MAX_SCORE ?cfg + DEFAULT_INC_SCORE ?cfg)
      (DEFAULT_INC_SCORE ?cfg) = Inr [1, 11, 21, 31, 41, 51, 61, 71, 81, 91, 101]"
    by (simp add: py_range_def test_config_def rate_config_def upt_rec)
  have bp: "backpressure ?cfg ?w3 = Inr False"
    by (simp add: backpressure_rate_one five_pool_def test_config_def rate_config_def
        Logger_debug_def s)
  have t2: "recheck_ip_try ?cfg (?dbg ?w2) = resend_check_ip ?cfg ?w3"
    unfolding recheck_ip_try_cases by (simp add: Logger_debug_def s i)
  have p: "check_pool (snd (resend_check_ip ?cfg ?w3)) = [''x'', ''a'', ''b'', ''c'']"
    unfolding resend_check_ip_def r bp
    by (simp add: Logger_debug_def s Redis_share_def)
       (simp add: test_config_def rate_config_def five_pool_def zrangebyscore_def push_to_pool_def
          Redis_share_def rpush_def Logger_info_def Let_def s)
  have l: "last_time (snd (resend_check_ip ?cfg ?w3)) ''recheck_ip'' = Some 70"
    using resend_check_ip_frame [of ?cfg ?w3] by (simp add: Logger_debug_def)
  have second: "check_pool (snd (recheck_ip_task_body ?cfg ?w2)) = [''x'', ''a'', ''b'', ''c'']"
    "last_time (snd (recheck_ip_task_body ?cfg ?w2)) ''recheck_ip'' = Some 70"
    using recheck_ip_task_body_store [of ?cfg ?w2] p l by (simp_all add: t2)
  show ?thesis
    unfolding w1 using s i second by (simp add: Logger_debug_def)
qed

subsection \<open>C6: the HTTPS stage does not depend on the HTTP stage\<close>

text \<open>
  Claim C6.  The outcome of \<^verbatim>\<open>https_check\<close> is decided by the answer to the HTTPS
  request alone: whatever \<^verbatim>\<open>http_check\<close> wrote to \<^verbatim>\<open>http\<close> and \<^verbatim>\<open>delay\<close>, the
  \<^verbatim>\<open>https\<close> attribute is the success of the HTTPS echo; run after \<^verbatim>\<open>http_check\<close> as in
  \<^verbatim>\<open>start_check\<close>, it is evaluated on both outcomes of the HTTP stage; and each of the
  four combinations of the two outcomes is the result of some network.
\<close>

theorem https_check_independent_of_http:
  "https (fst (https_check nt (ip\<lparr>http := h, delay := d\<rparr>) w)) =
      Some (origin_truthy (fst (session_get nt HTTPS_CHECK_URL (to_http ip) w))) \<and>
   https (fst (https_check nt (fst (http_check nt ip w)) (snd (http_check nt ip w)))) =
      Some (origin_truthy (fst (session_get nt HTTPS_CHECK_URL (to_http ip)
              (snd (session_get nt NORMAL_CHECK_URL (to_http ip) w))))) \<and>
   (\<forall>a b. \<exists>ip1 w1.
      check_stages (url_net (echo_answer a b) int) (test_config []) ip0 0 = (Inr ip1, w1) \<and>
      http ip1 = Some a \<and> https ip1 = Some b)"
proof -
  have 1: "https (fst (https_check nt (ip\<lparr>http := h, delay := d\<rparr>) w)) =
      Some (origin_truthy (fst (session_get nt HTTPS_CHECK_URL (to_http ip) w)))"
    by (simp add: https_check_eq)
  have 2: "https (fst (https_check nt (fst (http_check nt ip w)) (snd (http_check nt ip w)))) =
      Some (origin_truthy (fst (session_get nt HTTPS_CHECK_URL (to_http ip)
              (snd (session_get nt NORMAL_CHECK_URL (to_http ip) w)))))"
    by (simp add: https_check_eq http_check_eq)
  have 3: "\<exists>ip1 w1.
      check_stages (url_net (echo_answer a b) int) (test_config []) ip0 0 = (Inr ip1, w1) \<and>
      http ip1 = Some a \<and> https ip1 = Some b" for a b
    by (cases a; cases b)
       (simp_all add: check_stages_def http_check_eq https_check_eq rules_check_def
          origin_truthy_def demo_defs)
  from 1 2 3 show ?thesis by blast
qed

subsection \<open>C7: the HTTP stage\<close>

text \<open>
  Claim C7, as amended.  After \<^verbatim>\<open>http_check\<close>, \<^verbatim>\<open>http\<close> is true if and only if the
  request returned, its body decoded to a JSON object, and the object's \<^verbatim>\<open>origin\<close> is a
  value Python counts as true (present and not empty, null, zero or false).  In exactly
  that case \<^verbatim>\<open>delay\<close> is set, to the difference of the wall clock after and before the
  request, which is positive exactly when the clock has advanced; in every other case
  \<^verbatim>\<open>http\<close> is false and \<^verbatim>\<open>delay\<close> keeps its value.  The other attributes are untouched,
  the function returns on every path, and the pass goes on with \<^verbatim>\<open>https_check\<close> and
  \<^verbatim>\<open>rules_check\<close> on its result.
\<close>

theorem http_check_outcome:
  "(let r = fst (session_get nt NORMAL_CHECK_URL (to_http ip) w);
        w1 = snd (session_get nt NORMAL_CHECK_URL (to_http ip) w);
        ip1 = fst (http_check nt ip w)
    in http ip1 = Some (origin_truthy r) \<and>
       delay ip1 = (if origin_truthy r then Some (total_seconds (now nt w1 - now nt w)) else delay ip) \<and>
       (0 < total_seconds (now nt w1 - now nt w)) = (now nt w < now nt w1) \<and>
       endpoint ip1 = endpoint ip \<and> https ip1 = https ip \<and> rules ip1 = rules ip \<and>
       snd (http_check nt ip w) = w1 \<and>
       check_stages nt cfg ip w =
         rules_check nt cfg (fst (https_check nt ip1 w1)) (snd (https_check nt ip1 w1)))"
  by (simp add: check_stages_def split_beta http_check_eq Let_def total_seconds_def)

text \<open>
  The claim as stated fails in two ways: a decodable response that contains the field
  \<^verbatim>\<open>origin\<close> with an empty string is a failed check, and a successful check under a
  clock that did not advance records the latency 0, which is not positive.
\<close>

theorem http_check_counterexample:
  "has_origin_field (empty_origin_answer NORMAL_CHECK_URL) \<and>
   http (fst (http_check (url_net empty_origin_answer int) ip0 0)) = Some False \<and>
   origin_truthy (echo_answer True True NORMAL_CHECK_URL) \<and>
   delay (fst (http_check (url_net (echo_answer True True) frozen_clock) ip0 0)) = Some 0"
  by (simp add: http_check_eq demo_defs has_origin_field_def origin_truthy_def total_seconds_def)

subsection \<open>C8: the outcome of one rule\<close>

text \<open>
  Claim C8, as amended.  For an enabled rule of a list of \<^verbatim>\<open>RuleData\<close> whose key no
  later enabled rule of the list shares, the result stored under its key is true if
  and only if its own probe completed and, when \<^verbatim>\<open>contains\<close> is set, the body holds that
  substring.  The probe is the request made when the loop reaches the rule, after the
  rules before it, whatever their outcomes were: no rule is skipped because another one
  failed.
\<close>

theorem rules_check_rule_result:
  assumes "RULES cfg = pre @ Rule rule # post"
    and "list_all is_RuleData (RULES cfg)"
    and "enable rule"
    and "key rule \<notin> set (enabled_keys post)"
  shows "\<exists>ip1 w1. rules_check nt cfg ip w = (Inr ip1, w1) \<and>
           map_of (rules ip1) (key rule) =
             Some (rule_passes rule (fst (session_get nt (url rule) (to_http ip)
                     (snd (rules_loop nt ip pre [] w)))))"
proof -
  from assms(1,2) have pre: "list_all is_RuleData pre" and post: "list_all is_RuleData post"
    by simp_all
  obtain acc0 w0 where l0: "rules_loop nt ip pre [] w = (Inr acc0, w0)"
    using rules_loop_total [OF pre, where nt=nt and ip=ip and acc="[]" and w=w] by blast
  define b where "b = rule_passes rule (fst (session_get nt (url rule) (to_http ip) w0))"
  define wr where "wr = snd (session_get nt (url rule) (to_http ip) w0)"
  obtain acc1 w1 where l1: "rules_loop nt ip post (AList.update (key rule) b acc0) wr = (Inr acc1, w1)"
    using rules_loop_total [OF post, where nt=nt and ip=ip and acc="AList.update (key rule) b acc0" and w=wr]
    by blast
  have "rules_loop nt ip (pre @ Rule rule # post) [] w = (Inr acc1, w1)"
    using l0 l1 assms(3) by (simp add: rules_loop_append rules_loop_step b_def wr_def del: rules_loop.simps(3))
  then have res: "rules_check nt cfg ip w = (Inr (ip\<lparr>rules := acc1\<rparr>), w1)"
    by (simp add: rules_check_def assms(1))
  from assms(4) have "\<forall>r. Rule r \<in> set post \<longrightarrow> enable r \<longrightarrow> key r \<noteq> key rule"
    by (auto simp: set_enabled_keys)
  from rules_loop_other_key [OF l1 this] have "map_of acc1 (key rule) = Some b"
    by (simp add: AList.update_conv')
  with res show ?thesis by (simp add: b_def l0)
qed

theorem rules_check_rule_result_witness:
  "RULES (test_config [Rule down_rule, Rule hello_rule, Rule bye_rule, Rule off_rule]) =
     [Rule down_rule] @ Rule hello_rule # [Rule bye_rule, Rule off_rule] \<and>
   list_all is_RuleData (RULES (test_config [Rule down_rule, Rule hello_rule, Rule bye_rule, Rule off_rule])) \<and>
   enable hello_rule \<and>
   key hello_rule \<notin> set (enabled_keys [Rule bye_rule, Rule off_rule]) \<and>
   rule_passes hello_rule (echo_answer True False (url hello_rule)) \<and>
   \<not> rule_passes bye_rule (echo_answer True False (url bye_rule)) \<and>
   rules_check (url_net (echo_answer True False) int)
      (test_config [Rule down_rule, Rule hello_rule, Rule bye_rule, Rule off_rule]) ip0 0 =
     (Inr (ip0\<lparr>rules := [(''down'', False), (''hello'', True), (''bye'', False)]\<rparr>), 3)"
  using rules_check_rule_result [of "test_config [Rule down_rule, Rule hello_rule, Rule bye_rule, Rule off_rule]"
      "[Rule down_rule]" hello_rule "[Rule bye_rule, Rule off_rule]"
      "url_net (echo_answer True False) int" ip0 0]
  by (simp add: rules_check_def rules_loop_step rule_passes_def demo_defs sublist_Cons_right
       del: rules_loop.simps(3))

text \<open>
  The claim as stated, for every enabled rule, fails when two enabled rules share a key:
  the dict has one entry per key, so the failure of the later rule replaces the result
  of the earlier one, whose own probe succeeded.
\<close>

theorem rules_check_counterexample:
  "enable hello_rule \<and>
   rule_passes hello_rule (echo_answer True False (url hello_rule)) \<and>
   rules_check (url_net (echo_answer True False) int)
      (test_config [Rule hello_rule, Rule clash_rule]) ip0 0 =
     (Inr (ip0\<lparr>rules := [(key hello_rule, False)]\<rparr>), 2)"
  by (simp add: rules_check_def rules_loop_step rule_passes_def demo_defs sublist_Cons_right
       del: rules_loop.simps(3))

subsection \<open>C9: the check loop catches every error\<close>

text \<open>
  Claim C9.  When \<^verbatim>\<open>start_check\<close> raises in a pass of the loop of \<^verbatim>\<open>check_task\<close>, the pass
  ends normally with the error logged and a sleep of 5 after it.  In test mode the task
  then returns normally; otherwise it is back at the head of the loop in that state and
  its further passes are those from there.  No run of the task ends with an exception,
  and outside test mode the task never returns at all.
\<close>

theorem check_task_catches_errors:
  assumes "start_check ev cfg (Logger_debug ''[check] check task loop'' w) = Some (Inl e, w1)"
  shows "check_task_body ev cfg w =
           Some (Inr (), w1\<lparr>events := events w1 @ [LogError (''[error] '' @ str_exn e), Sleep 5]\<rparr>) \<and>
         check_task (Suc n) ev cfg w =
           (if APP_ENV cfg = TEST
            then Returned (Inr (), w1\<lparr>events := events w1 @ [LogError (''[error] '' @ str_exn e), Sleep 5]\<rparr>)
            else check_task n ev cfg
                   (w1\<lparr>events := events w1 @ [LogError (''[error] '' @ str_exn e), Sleep 5]\<rparr>)) \<and>
         check_task (Suc 0) ev cfg w =
           (if APP_ENV cfg = TEST
            then Returned (Inr (), w1\<lparr>events := events w1 @ [LogError (''[error] '' @ str_exn e), Sleep 5]\<rparr>)
            else Running (w1\<lparr>events := events w1 @ [LogError (''[error] '' @ str_exn e), Sleep 5]\<rparr>)) \<and>
         (\<forall>m v e2 v2. check_task m ev cfg v \<noteq> Returned (Inl e2, v2)) \<and>
         (\<forall>m v r. APP_ENV cfg \<noteq> TEST \<longrightarrow> check_task m ev cfg v \<noteq> Returned r)"
proof -
  have body: "check_task_body ev cfg w =
           Some (Inr (), w1\<lparr>events := events w1 @ [LogError (''[error] '' @ str_exn e), Sleep 5]\<rparr>)"
    using assms
    by (simp add: check_task_body_def handle_task_exception_def asyncio_sleep_def Logger_error_def)
  then show ?thesis using check_task_no_raise check_task_production_loops by simp
qed

theorem check_task_catches_errors_witness:
  "start_check test_env (test_config []) (Logger_debug ''[check] check task loop'' down_world) =
     Some (Inl (LibraryError ''connection refused''), Logger_debug ''[check] check task loop'' down_world) \<and>
   check_task (Suc 0) test_env (test_config []) down_world =
     Returned (Inr (), down_world\<lparr>events := [LogDebug ''[check] check task loop'',
                                          LogError ''[error] connection refused'', Sleep 5]\<rparr>) \<and>
   start_check test_env (test_config [NotRuleData])
       (Logger_debug ''[check] check task loop'' (demo_world [''10.0.0.1:8080''] [])) =
     Some (Inl (AssertionError ''Error rule format''), asserted_world) \<and>
   check_task (Suc 0) test_env (test_config [NotRuleData]) (demo_world [''10.0.0.1:8080''] []) =
     Returned (Inr (), asserted_world\<lparr>events := events asserted_world @
                                     [LogError ''[error] Error rule format'', Sleep 5]\<rparr>) \<and>
   start_check test_env (production_config [])
       (Logger_debug ''[check] check task loop'' down_world) =
     Some (Inl (LibraryError ''connection refused''), Logger_debug ''[check] check task loop'' down_world) \<and>
   check_task (Suc (Suc 0)) test_env (production_config []) down_world =
     Running (down_world\<lparr>events := [LogDebug ''[check] check task loop'',
                                     LogError ''[error] connection refused'', Sleep 5,
                                     LogDebug ''[check] check task loop'',
                                     LogError ''[error] connection refused'', Sleep 5]\<rparr>)"
proof -
  have h1: "start_check test_env (test_config []) (Logger_debug ''[check] check task loop'' down_world) =
     Some (Inl (LibraryError ''connection refused''), Logger_debug ''[check] check task loop'' down_world)"
    by (simp add: loop_defs)
  have h2: "start_check test_env (test_config [NotRuleData])
       (Logger_debug ''[check] check task loop'' (demo_world [''10.0.0.1:8080''] [])) =
     Some (Inl (AssertionError ''Error rule format''), asserted_world)"
    by (simp add: loop_defs check_stages_def http_check_eq https_check_eq rules_check_def
        test_config_def rate_config_def)
  have h3: "start_check test_env (production_config [])
       (Logger_debug ''[check] check task loop'' down_world) =
     Some (Inl (LibraryError ''connection refused''), Logger_debug ''[check] check task loop'' down_world)"
    by (simp add: loop_defs)
  have t: "APP_ENV (test_config rs) = TEST" "APP_ENV (production_config rs) \<noteq> TEST" for rs
    by (simp_all add: test_config_def rate_config_def production_config_def)
  have second: "check_task (Suc 0) test_env (production_config [])
       (down_world\<lparr>events := [LogDebug ''[check] check task loop'',
                              LogError ''[error] connection refused'', Sleep 5]\<rparr>) =
     Running (down_world\<lparr>events := [LogDebug ''[check] check task loop'',
                                     LogError ''[error] connection refused'', Sleep 5,
                                     LogDebug ''[check] check task loop'',
                                     LogError ''[error] connection refused'', Sleep 5]\<rparr>)"
    by (simp add: loop_defs t)
  from check_task_catches_errors [OF h1, of 0] check_task_catches_errors [OF h2, of 0]
    check_task_catches_errors [OF h3, of "Suc 0"] h1 h2 h3 second
  show ?thesis
    by (simp add: t) (simp add: loop_defs)
qed

subsection \<open>C10: the rule results are rebuilt\<close>

text \<open>
  Claim C10.  When \<^verbatim>\<open>rules_check\<close> returns, the keys of \<^verbatim>\<open>ip.rules\<close> are exactly the
  keys of the enabled rules of \<^verbatim>\<open>Config.RULES\<close>, and the result is the same whatever
  \<^verbatim>\<open>ip.rules\<close> held before: the dict is built from an empty one.
\<close>

theorem rules_check_rebuilds_rules:
  assumes "rules_check nt cfg ip w = (Inr ip1, w1)"
  shows "set (map fst (rules ip1)) = set (enabled_keys (RULES cfg)) \<and>
         rules_check nt cfg (ip\<lparr>rules := old\<rparr>) w = (Inr ip1, w1)"
proof -
  from assms obtain acc where loop: "rules_loop nt ip (RULES cfg) [] w = (Inr acc, w1)"
    and ip1: "ip1 = ip\<lparr>rules := acc\<rparr>"
    by (auto simp: rules_check_def split: prod.splits sum.splits)
  have "fst ` set acc = set (enabled_keys (RULES cfg))"
    using rules_loop_keys [OF loop] by (simp add: set_enabled_keys)
  moreover have "rules_check nt cfg (ip\<lparr>rules := old\<rparr>) w = (Inr ip1, w1)"
    by (simp add: rules_check_def rules_loop_rules_update loop ip1)
  ultimately show ?thesis by (simp add: ip1)
qed

theorem rules_check_rebuilds_rules_witness:
  "rules_check (url_net (echo_answer True False) int)
      (test_config [Rule down_rule, Rule hello_rule, Rule bye_rule, Rule off_rule])
      (ip0\<lparr>rules := [(''stale'', True)]\<rparr>) 0 =
     (Inr (ip0\<lparr>rules := [(''down'', False), (''hello'', True), (''bye'', False)]\<rparr>), 3) \<and>
   enabled_keys (RULES (test_config [Rule down_rule, Rule hello_rule, Rule bye_rule, Rule off_rule])) =
     [''down'', ''hello'', ''bye''] \<and>
   rules_check (url_net (echo_answer True False) int)
      (test_config [Rule down_rule, Rule hello_rule, Rule bye_rule, Rule off_rule]) ip0 0 =
     (Inr (ip0\<lparr>rules := [(''down'', False), (''hello'', True), (''bye'', False)]\<rparr>), 3)"
  using rules_check_rebuilds_rules [of "url_net (echo_answer True False) int"
      "test_config [Rule down_rule, Rule hello_rule, Rule bye_rule, Rule off_rule]"
      "ip0\<lparr>rules := [(''stale'', True)]\<rparr>" 0
      "ip0\<lparr>rules := [(''down'', False), (''hello'', True), (''bye'', False)]\<rparr>" 3 "[]"]
  by (simp add: rules_check_def rules_loop_step rule_passes_def demo_defs sublist_Cons_right
       del: rules_loop.simps(3))

end
